theory Spec2Isabelle
  imports Complex_Main "HOL-Library.Product_Lexorder"
begin

section \<open>Centered Kernel Alignment: the notebook's numeric pipeline\<close>

text \<open>
  The notebook \<^verbatim>\<open>CKA.ipynb\<close> defines four functions over NumPy arrays:
  \<^verbatim>\<open>linear_kernel\<close>, \<^verbatim>\<open>rbf\<close>, \<^verbatim>\<open>HSIC\<close> and \<^verbatim>\<open>CKA\<close>.  They are
  embedded here over a small model of the NumPy operations they call.

  Numbers.  A float64 is either a finite value, held as a real number, or one of the
  three special values \<open>+inf\<close>, \<open>-inf\<close>, \<open>nan\<close>.  The operations below compute exactly;
  the rounding of each result is a parameter of the embedding, introduced next.  The sign
  of zero is not modelled.  Modelled are the places where the source leaves the finite
  values or raises: NumPy's division by zero and square root of a negative number (a
  warning and \<open>inf\<close>/\<open>nan\<close>), the median of an empty selection (\<open>nan\<close>), Python's
  division by zero (\<^verbatim>\<open>ZeroDivisionError\<close>), the unbound name \<^verbatim>\<open>math\<close>
  (\<^verbatim>\<open>NameError\<close>) and the shape checks of the matrix product and of broadcasting
  (\<^verbatim>\<open>ValueError\<close>).

  Matrix products and traces accumulate from the left and round each product and each
  sum; a BLAS may order the sums otherwise or fuse a product with a sum.  \<^verbatim>\<open>np.exp\<close>
  and \<^verbatim>\<open>np.sqrt\<close> are taken as correctly rounded.  The float64 evaluations below are
  on inputs where these choices make no difference: every inner product there has at
  most two terms, the only sums and products whose rounding changes them are single
  products (two entries of a Gram matrix, the square of one bandwidth), and the
  exponentials are far from the boundaries used.
\<close>

subsection \<open>float64 values\<close>

datatype float64 = Fin real | PInf | NInf | NaN

text \<open>The sign of a value that is not \<open>nan\<close>: \<open>-1\<close>, \<open>0\<close> or \<open>1\<close>.\<close>

fun fsign :: "float64 \<Rightarrow> int" where
  "fsign (Fin x) = (if x = 0 then 0 else if 0 < x then 1 else - 1)"
| "fsign PInf = 1"
| "fsign NInf = - 1"
| "fsign NaN = 0"

instantiation float64 :: "{comm_monoid_add, uminus, minus, times}"
begin

definition zero_float64 :: float64 where
  "zero_float64 = Fin 0"

fun uminus_float64 :: "float64 \<Rightarrow> float64" where
  "uminus_float64 (Fin x) = Fin (- x)"
| "uminus_float64 PInf = NInf"
| "uminus_float64 NInf = PInf"
| "uminus_float64 NaN = NaN"

fun plus_float64 :: "float64 \<Rightarrow> float64 \<Rightarrow> float64" where
  "plus_float64 (Fin x) (Fin y) = Fin (x + y)"
| "plus_float64 NaN v = NaN"
| "plus_float64 v NaN = NaN"
| "plus_float64 PInf NInf = NaN"
| "plus_float64 NInf PInf = NaN"
| "plus_float64 PInf v = PInf"
| "plus_float64 v PInf = PInf"
| "plus_float64 NInf v = NInf"
| "plus_float64 v NInf = NInf"

definition minus_float64 :: "float64 \<Rightarrow> float64 \<Rightarrow> float64" where
  "minus_float64 a b = a + (- b)"

fun times_float64 :: "float64 \<Rightarrow> float64 \<Rightarrow> float64" where
  "times_float64 (Fin x) (Fin y) = Fin (x * y)"
| "times_float64 NaN v = NaN"
| "times_float64 v NaN = NaN"
| "times_float64 a b =
     (if fsign a * fsign b = 0 then NaN else if 0 < fsign a * fsign b then PInf else NInf)"

instance
proof (intro_classes, goal_cases)
  case (1 u v w)
  show ?case by (cases u; cases v; cases w; simp)
next
  case (2 u v)
  show ?case by (cases u; cases v; simp)
next
  case (3 u)
  show ?case by (cases u; simp add: zero_float64_def)
qed

end

text \<open>NumPy's \<^verbatim>\<open>/\<close> on float64 scalars: a zero divisor gives \<open>nan\<close> or an infinity
  (and a RuntimeWarning), never an exception.\<close>

fun np_divide :: "float64 \<Rightarrow> float64 \<Rightarrow> float64" where
  "np_divide (Fin x) (Fin y) =
     (if y = 0 then (if x = 0 then NaN else if 0 < x then PInf else NInf) else Fin (x / y))"
| "np_divide NaN v = NaN"
| "np_divide v NaN = NaN"
| "np_divide (Fin x) v = Fin 0"
| "np_divide a (Fin y) = (if 0 \<le> fsign a * fsign (Fin y) then a else - a)"
| "np_divide a b = NaN"

text \<open>\<^verbatim>\<open>np.sqrt\<close> and \<^verbatim>\<open>np.exp\<close> on a float64.\<close>

fun np_sqrt :: "float64 \<Rightarrow> float64" where
  "np_sqrt (Fin x) = (if x < 0 then NaN else Fin (sqrt x))"
| "np_sqrt PInf = PInf"
| "np_sqrt v = NaN"

fun np_exp1 :: "float64 \<Rightarrow> float64" where
  "np_exp1 (Fin x) = Fin (exp x)"
| "np_exp1 PInf = PInf"
| "np_exp1 NInf = Fin 0"
| "np_exp1 NaN = NaN"

subsection \<open>Rounding\<close>

text \<open>
  Every float64 operation of the source rounds its result.  The embedding takes the
  rounding as a parameter \<open>r\<close>, applied to the result of each operation.  Two roundings
  are used: \<open>exact\<close> rounds nothing, so the functions compute in real arithmetic;
  \<open>binary64\<close> is IEEE 754 double precision, round to nearest with ties to even, with
  gradual underflow and overflow to infinity.
\<close>

type_synonym rounding = "float64 \<Rightarrow> float64"

definition exact :: rounding where
  "exact v = v"

definition round_half_even :: "real \<Rightarrow> int" where
  "round_half_even q =
     (let f = \<lfloor>q\<rfloor> in
      if q - of_int f < 1/2 then f
      else if 1/2 < q - of_int f then f + 1
      else if even f then f else f + 1)"

text \<open>The exponent of the unit in the last place of a nonzero \<open>x\<close>: 53 significant bits,
  and never below the subnormal spacing \<open>2\<^sup>-\<^sup>1\<^sup>0\<^sup>7\<^sup>4\<close>.\<close>

definition ulp_exponent :: "real \<Rightarrow> int" where
  "ulp_exponent x = max (\<lfloor>log 2 \<bar>x\<bar>\<rfloor> - 52) (- 1074)"

definition fl :: "real \<Rightarrow> real" where
  "fl x = (if x = 0 then 0
           else of_int (round_half_even (x / 2 powi ulp_exponent x)) * 2 powi ulp_exponent x)"

definition binary64 :: rounding where
  "binary64 v =
     (case v of
        Fin x \<Rightarrow> if 2 ^ 1024 \<le> \<bar>fl x\<bar> then (if 0 < x then PInf else NInf) else Fin (fl x)
      | _ \<Rightarrow> v)"

subsection \<open>Exceptions\<close>

datatype error = ValueError | ZeroDivisionError | NameError

definition and_then :: "error + 'a \<Rightarrow> ('a \<Rightarrow> error + 'b) \<Rightarrow> error + 'b" where
  "and_then m f = (case m of Inl e \<Rightarrow> Inl e | Inr x \<Rightarrow> f x)"

text \<open>Python's \<^verbatim>\<open>/\<close> on Python numbers raises on a zero divisor.\<close>

definition py_div_r :: "rounding \<Rightarrow> float64 \<Rightarrow> float64 \<Rightarrow> error + float64" where
  "py_div_r r a b = (if b = Fin 0 then Inl ZeroDivisionError else Inr (r (np_divide a b)))"

text \<open>The notebook imports \<^verbatim>\<open>numpy\<close> only.  In \<^verbatim>\<open>math.sqrt(mdist)\<close> the name
  \<^verbatim>\<open>math\<close> is not bound, so evaluating the call raises \<^verbatim>\<open>NameError\<close> whatever the
  argument is.\<close>

definition math_sqrt :: "float64 \<Rightarrow> error + float64" where
  "math_sqrt v = Inl NameError"

text \<open>A bandwidth passed to \<^verbatim>\<open>rbf\<close> is a Python number or a NumPy float64 scalar.  The
  two differ in their division: Python's raises on zero, NumPy's warns and gives \<open>inf\<close>
  or \<open>nan\<close>.  A Python integer is taken at its float value.\<close>

datatype scalar = Py float64 | Np float64

fun scalar_value :: "scalar \<Rightarrow> float64" where
  "scalar_value (Py v) = v"
| "scalar_value (Np v) = v"

definition scalar_div :: "rounding \<Rightarrow> scalar \<Rightarrow> float64 \<Rightarrow> float64 \<Rightarrow> error + float64" where
  "scalar_div r s a b = (case s of Py v \<Rightarrow> py_div_r r a b | Np v \<Rightarrow> Inr (r (np_divide a b)))"

subsection \<open>Two-dimensional arrays\<close>

text \<open>An array has a shape \<open>(nrows, ncols)\<close> and a float64 item at each index inside it.\<close>

record ndarray =
  nrows :: nat
  ncols :: nat
  item :: "nat \<Rightarrow> nat \<Rightarrow> float64"

text \<open>The array of shape \<open>(n, m)\<close> holding the finite values \<open>f i j\<close>.\<close>

definition real_array :: "nat \<Rightarrow> nat \<Rightarrow> (nat \<Rightarrow> nat \<Rightarrow> real) \<Rightarrow> ndarray" where
  "real_array n m f = \<lparr>nrows = n, ncols = m, item = \<lambda>i j. Fin (f i j)\<rparr>"

text \<open>\<^verbatim>\<open>A.T\<close>\<close>

definition transpose_T :: "ndarray \<Rightarrow> ndarray" where
  "transpose_T A = \<lparr>nrows = ncols A, ncols = nrows A, item = \<lambda>i j. item A j i\<rparr>"

text \<open>An inner product of length \<open>n\<close>, accumulated from the left.\<close>

definition dot_r :: "rounding \<Rightarrow> nat \<Rightarrow> (nat \<Rightarrow> float64) \<Rightarrow> (nat \<Rightarrow> float64) \<Rightarrow> float64" where
  "dot_r r n f g = foldl (\<lambda>acc k. r (acc + r (f k * g k))) (Fin 0) [0..<n]"

text \<open>\<^verbatim>\<open>np.matmul(A, B)\<close>, which is also \<^verbatim>\<open>np.dot(A, B)\<close> on two-dimensional arrays:
  the inner dimensions must agree.\<close>

definition np_matmul_r :: "rounding \<Rightarrow> ndarray \<Rightarrow> ndarray \<Rightarrow> error + ndarray" where
  "np_matmul_r r A B =
     (if ncols A \<noteq> nrows B then Inl ValueError
      else Inr \<lparr>nrows = nrows A, ncols = ncols B,
                item = \<lambda>i j. dot_r r (ncols A) (\<lambda>k. item A i k) (\<lambda>k. item B k j)\<rparr>)"

text \<open>\<^verbatim>\<open>np.diag(A)\<close> of a two-dimensional array is the one-dimensional array of its
  diagonal, of length \<open>min nrows ncols\<close>.  In arithmetic with a two-dimensional array a
  one-dimensional array of length \<open>k\<close> broadcasts as shape \<open>(1, k)\<close>, which is how it is
  represented.\<close>

definition np_diag :: "ndarray \<Rightarrow> ndarray" where
  "np_diag A = \<lparr>nrows = 1, ncols = min (nrows A) (ncols A), item = \<lambda>i j. item A j j\<rparr>"

text \<open>Broadcasting of one dimension: equal lengths, or one of them is 1.\<close>

definition bdim :: "nat \<Rightarrow> nat \<Rightarrow> nat option" where
  "bdim a b = (if a = b then Some a else if a = 1 then Some b else if b = 1 then Some a else None)"

definition bidx :: "nat \<Rightarrow> nat \<Rightarrow> nat" where
  "bidx a i = (if a = 1 then 0 else i)"

text \<open>An elementwise binary operation \<^verbatim>\<open>A op B\<close> with broadcasting.\<close>

definition elementwise ::
  "(float64 \<Rightarrow> float64 \<Rightarrow> float64) \<Rightarrow> ndarray \<Rightarrow> ndarray \<Rightarrow> error + ndarray" where
  "elementwise f A B =
     (case (bdim (nrows A) (nrows B), bdim (ncols A) (ncols B)) of
        (Some r, Some c) \<Rightarrow>
          Inr \<lparr>nrows = r, ncols = c,
               item = \<lambda>i j. f (item A (bidx (nrows A) i) (bidx (ncols A) j))
                               (item B (bidx (nrows B) i) (bidx (ncols B) j))\<rparr>
      | _ \<Rightarrow> Inl ValueError)"

text \<open>A scalar times an array (\<^verbatim>\<open>c * A\<close>, \<^verbatim>\<open>A *= c\<close>).\<close>

definition scale_r :: "rounding \<Rightarrow> float64 \<Rightarrow> ndarray \<Rightarrow> ndarray" where
  "scale_r r c A = \<lparr>nrows = nrows A, ncols = ncols A, item = \<lambda>i j. r (item A i j * c)\<rparr>"

definition np_exp_r :: "rounding \<Rightarrow> ndarray \<Rightarrow> ndarray" where
  "np_exp_r r A = \<lparr>nrows = nrows A, ncols = ncols A, item = \<lambda>i j. r (np_exp1 (item A i j))\<rparr>"

definition np_identity :: "nat \<Rightarrow> ndarray" where
  "np_identity n = \<lparr>nrows = n, ncols = n, item = \<lambda>i j. if i = j then Fin 1 else Fin 0\<rparr>"

definition np_ones :: "nat \<Rightarrow> nat \<Rightarrow> ndarray" where
  "np_ones n m = \<lparr>nrows = n, ncols = m, item = \<lambda>i j. Fin 1\<rparr>"

definition np_trace_r :: "rounding \<Rightarrow> ndarray \<Rightarrow> float64" where
  "np_trace_r r A =
     foldl (\<lambda>acc i. r (acc + item A i i)) (Fin 0) [0..<min (nrows A) (ncols A)]"

text \<open>\<^verbatim>\<open>A[A != 0]\<close>: the items that differ from zero, in row-major order.\<close>

definition flatten :: "ndarray \<Rightarrow> float64 list" where
  "flatten A = concat (map (\<lambda>i. map (\<lambda>j. item A i j) [0..<ncols A]) [0..<nrows A])"

definition select_nonzero :: "ndarray \<Rightarrow> float64 list" where
  "select_nonzero A = filter (\<lambda>v. v \<noteq> Fin 0) (flatten A)"

text \<open>\<^verbatim>\<open>np.median\<close> of a one-dimensional selection: \<open>nan\<close> when it is empty or holds a
  \<open>nan\<close>; otherwise the middle item of the sorted values, or the mean of the two middle
  items.  \<open>sort_rank\<close> orders the values as NumPy's sort does.\<close>

fun sort_rank :: "float64 \<Rightarrow> nat \<times> real" where
  "sort_rank NInf = (0, 0)"
| "sort_rank (Fin x) = (1, x)"
| "sort_rank PInf = (2, 0)"
| "sort_rank NaN = (3, 0)"

definition np_median_r :: "rounding \<Rightarrow> float64 list \<Rightarrow> float64" where
  "np_median_r r xs =
     (if xs = [] \<or> NaN \<in> set xs then NaN
      else let s = sort_key sort_rank xs; h = length s div 2
           in if even (length s) then r (np_divide (r (s ! (h - 1) + s ! h)) (Fin 2))
              else s ! h)"

subsection \<open>The notebook's functions\<close>

text \<open>\<^verbatim>\<open>def linear_kernel(X, Y): return np.matmul(X, Y.T)\<close>\<close>

definition linear_kernel_r :: "rounding \<Rightarrow> ndarray \<Rightarrow> ndarray \<Rightarrow> error + ndarray" where
  "linear_kernel_r r X Y = np_matmul_r r X (transpose_T Y)"

text \<open>
  \<^verbatim>\<open>
  def rbf(X, Y, sigma=None):
      GX = np.dot(X, Y.T)
      KX = np.diag(GX) - GX + (np.diag(GX) - GX).T
      if sigma is None:
          mdist = np.median(KX[KX != 0])
          sigma = math.sqrt(mdist)
      KX *= - 0.5 / (sigma * sigma)
      KX = np.exp(KX)
      return KX
  \<close>
  With no bandwidth supplied the median is computed and then \<^verbatim>\<open>math.sqrt\<close> raises.
  With a bandwidth supplied, the division of the scaling step is Python's or NumPy's
  according to the kind of number the bandwidth is.
\<close>

definition rbf_r :: "rounding \<Rightarrow> ndarray \<Rightarrow> ndarray \<Rightarrow> scalar option \<Rightarrow> error + ndarray" where
  "rbf_r r X Y sigma =
     and_then (np_matmul_r r X (transpose_T Y)) (\<lambda>GX.
     and_then (elementwise (\<lambda>a b. r (a - b)) (np_diag GX) GX) (\<lambda>A.
     and_then (elementwise (\<lambda>a b. r (a - b)) (np_diag GX) GX) (\<lambda>B.
     and_then (elementwise (\<lambda>a b. r (a + b)) A (transpose_T B)) (\<lambda>KX.
     and_then (case sigma of
                 None \<Rightarrow> and_then (math_sqrt (np_median_r r (select_nonzero KX)))
                           (\<lambda>s. Inr (Py s))
               | Some s \<Rightarrow> Inr s) (\<lambda>s.
     and_then (scalar_div r s (Fin (- 0.5)) (r (scalar_value s * scalar_value s))) (\<lambda>c.
     Inr (np_exp_r r (scale_r r c KX))))))))"

text \<open>
  \<^verbatim>\<open>
  def HSIC(K, L):
      n = K.shape[0]
      H = np.identity(n) - (1./n) * np.ones((n, n))
      KH = np.matmul(K, H)
      LH = np.matmul(L, H)
      return 1./((n-1)**2) * np.trace(np.matmul(KH, LH))
  \<close>
  \<open>n\<close> is a Python integer, so both divisions are Python's and raise on zero; the
  left factor of the final product is evaluated before the right one.
\<close>

text \<open>The line \<^verbatim>\<open>H = np.identity(n) - (1./n) * np.ones((n, n))\<close>.\<close>

definition centering_r :: "rounding \<Rightarrow> nat \<Rightarrow> error + ndarray" where
  "centering_r r n =
     and_then (py_div_r r (Fin 1) (r (Fin (real n)))) (\<lambda>c.
     elementwise (\<lambda>a b. r (a - b)) (np_identity n) (scale_r r c (np_ones n n)))"

definition HSIC_r :: "rounding \<Rightarrow> ndarray \<Rightarrow> ndarray \<Rightarrow> error + float64" where
  "HSIC_r r K L =
     (let n = nrows K in
      and_then (centering_r r n) (\<lambda>H.
      and_then (np_matmul_r r K H) (\<lambda>KH.
      and_then (np_matmul_r r L H) (\<lambda>LH.
      and_then (py_div_r r (Fin 1) (r (Fin (real_of_int ((int n - 1) ^ 2))))) (\<lambda>c.
      and_then (np_matmul_r r KH LH) (\<lambda>M.
      Inr (r (c * np_trace_r r M))))))))"

text \<open>
  \<^verbatim>\<open>
  def CKA(X, Y, kernel=None):
      kernel = linear_kernel if kernel is None else kernel
      K = kernel(X, X)
      L = kernel(Y, Y)
      hsic = HSIC(K, L)
      varK = np.sqrt(HSIC(K, K))
      varL = np.sqrt(HSIC(L, L))
      return hsic / (varK * varL)
  \<close>
  The three HSIC values are NumPy float64 scalars, so the final division is NumPy's.
\<close>

type_synonym kernel_fn = "ndarray \<Rightarrow> ndarray \<Rightarrow> error + ndarray"

definition choose_kernel_r :: "rounding \<Rightarrow> kernel_fn option \<Rightarrow> kernel_fn" where
  "choose_kernel_r r kern = (case kern of None \<Rightarrow> linear_kernel_r r | Some f \<Rightarrow> f)"

definition CKA_r :: "rounding \<Rightarrow> ndarray \<Rightarrow> ndarray \<Rightarrow> kernel_fn option \<Rightarrow> error + float64" where
  "CKA_r r X Y kern =
     (let k = choose_kernel_r r kern in
      and_then (k X X) (\<lambda>K.
      and_then (k Y Y) (\<lambda>L.
      and_then (HSIC_r r K L) (\<lambda>hsic.
      and_then (HSIC_r r K K) (\<lambda>hK.
      and_then (HSIC_r r L L) (\<lambda>hL.
      Inr (r (np_divide hsic (r (r (np_sqrt hK) * r (np_sqrt hL)))))))))))"


definition rbf_with_r :: "rounding \<Rightarrow> scalar \<Rightarrow> kernel_fn" where
  "rbf_with_r r s X Y = rbf_r r X Y (Some s)"

text \<open>The value \<^verbatim>\<open>varK\<close> that \<^verbatim>\<open>CKA\<close> computes for a representation \<open>X\<close>:
  \<^verbatim>\<open>np.sqrt(HSIC(K, K))\<close> with \<^verbatim>\<open>K = kernel(X, X)\<close>.\<close>

definition self_var_r :: "rounding \<Rightarrow> kernel_fn option \<Rightarrow> ndarray \<Rightarrow> error + float64" where
  "self_var_r r kern X =
     and_then (choose_kernel_r r kern X X) (\<lambda>K.
     and_then (HSIC_r r K K) (\<lambda>hK. Inr (r (np_sqrt hK))))"

subsection \<open>The functions in exact arithmetic\<close>

text \<open>With the rounding \<open>exact\<close> the functions compute on real numbers.  The properties
  that the specification states as mathematical facts are properties of these.\<close>

definition py_div :: "float64 \<Rightarrow> float64 \<Rightarrow> error + float64" where
  "py_div = py_div_r exact"

definition np_matmul :: "ndarray \<Rightarrow> ndarray \<Rightarrow> error + ndarray" where
  "np_matmul = np_matmul_r exact"

definition scale :: "float64 \<Rightarrow> ndarray \<Rightarrow> ndarray" where
  "scale = scale_r exact"

definition np_exp :: "ndarray \<Rightarrow> ndarray" where
  "np_exp = np_exp_r exact"

definition np_trace :: "ndarray \<Rightarrow> float64" where
  "np_trace = np_trace_r exact"

definition centering :: "nat \<Rightarrow> error + ndarray" where
  "centering = centering_r exact"

definition linear_kernel :: kernel_fn where
  "linear_kernel = linear_kernel_r exact"

definition rbf :: "ndarray \<Rightarrow> ndarray \<Rightarrow> scalar option \<Rightarrow> error + ndarray" where
  "rbf = rbf_r exact"

definition HSIC :: "ndarray \<Rightarrow> ndarray \<Rightarrow> error + float64" where
  "HSIC = HSIC_r exact"

definition choose_kernel :: "kernel_fn option \<Rightarrow> kernel_fn" where
  "choose_kernel = choose_kernel_r exact"

definition CKA :: "ndarray \<Rightarrow> ndarray \<Rightarrow> kernel_fn option \<Rightarrow> error + float64" where
  "CKA = CKA_r exact"


definition rbf_with :: "scalar \<Rightarrow> kernel_fn" where
  "rbf_with = rbf_with_r exact"

definition self_var :: "kernel_fn option \<Rightarrow> ndarray \<Rightarrow> error + float64" where
  "self_var = self_var_r exact"

subsection \<open>Matrix notions of the specification\<close>

text \<open>Real \<open>n \<times> n\<close> matrices as index functions: product, trace, and the centering
  matrix \<open>H = I\<^sub>n - (1/n) ones(n, n)\<close>.\<close>

definition mat_mul :: "nat \<Rightarrow> (nat \<Rightarrow> nat \<Rightarrow> real) \<Rightarrow> (nat \<Rightarrow> nat \<Rightarrow> real) \<Rightarrow> nat \<Rightarrow> nat \<Rightarrow> real" where
  "mat_mul n A B = (\<lambda>i j. \<Sum>k<n. A i k * B k j)"

definition mat_trace :: "nat \<Rightarrow> (nat \<Rightarrow> nat \<Rightarrow> real) \<Rightarrow> real" where
  "mat_trace n A = (\<Sum>i<n. A i i)"

definition centering_H :: "nat \<Rightarrow> nat \<Rightarrow> nat \<Rightarrow> real" where
  "centering_H n = (\<lambda>i j. (if i = j then 1 else 0) - 1 / real n)"

text \<open>The number that \<^verbatim>\<open>HSIC\<close> computes on real \<open>n \<times> n\<close> matrices:
  \<open>trace((K H) (L H)) / (n - 1)\<^sup>2\<close>.\<close>

definition hsic_real :: "nat \<Rightarrow> (nat \<Rightarrow> nat \<Rightarrow> real) \<Rightarrow> (nat \<Rightarrow> nat \<Rightarrow> real) \<Rightarrow> real" where
  "hsic_real n K L =
     mat_trace n (mat_mul n (mat_mul n K (centering_H n)) (mat_mul n L (centering_H n)))
       / (real n - 1)\<^sup>2"

text \<open>The Gram matrix \<open>G = X Y\<^sup>T\<close> of two row sets of dimension \<open>p\<close>, and the squared
  distances \<open>D[i,j] = G[i,i] - 2 G[i,j] + G[j,j]\<close> of the rows of \<open>X\<close>.\<close>

definition gram :: "nat \<Rightarrow> (nat \<Rightarrow> nat \<Rightarrow> real) \<Rightarrow> (nat \<Rightarrow> nat \<Rightarrow> real) \<Rightarrow> nat \<Rightarrow> nat \<Rightarrow> real" where
  "gram p x y = (\<lambda>i j. \<Sum>k<p. x i k * y j k)"

definition sqdist :: "nat \<Rightarrow> (nat \<Rightarrow> nat \<Rightarrow> real) \<Rightarrow> nat \<Rightarrow> nat \<Rightarrow> real" where
  "sqdist p x = (\<lambda>i j. gram p x x i i - 2 * gram p x x i j + gram p x x j j)"

subsection \<open>Notions used in the proofs\<close>

text \<open>Row means and the doubly centered matrix \<open>H A H\<close> of a symmetric matrix.\<close>

definition rowmean :: "nat \<Rightarrow> (nat \<Rightarrow> nat \<Rightarrow> real) \<Rightarrow> nat \<Rightarrow> real" where
  "rowmean n A i = (\<Sum>a<n. A i a) / real n"

definition dcenter :: "nat \<Rightarrow> (nat \<Rightarrow> nat \<Rightarrow> real) \<Rightarrow> nat \<Rightarrow> nat \<Rightarrow> real" where
  "dcenter n A i j = A i j - rowmean n A i - rowmean n A j + (\<Sum>a<n. rowmean n A a) / real n"

text \<open>Finite sums of rank-one matrices \<open>f f\<^sup>T\<close>, and their entrywise limits: the positive
  semidefinite matrices the two kernels produce.\<close>

inductive gram_like :: "(nat \<Rightarrow> nat \<Rightarrow> real) \<Rightarrow> bool" where
  rank_one: "gram_like (\<lambda>i j. f i * f j)"
| plus: "gram_like A \<Longrightarrow> gram_like B \<Longrightarrow> gram_like (\<lambda>i j. A i j + B i j)"

definition gram_limit :: "(nat \<Rightarrow> nat \<Rightarrow> real) \<Rightarrow> bool" where
  "gram_limit A \<longleftrightarrow>
     (\<exists>As. (\<forall>m. gram_like (As m)) \<and> (\<forall>i j. (\<lambda>m. As m i j) \<longlonglongrightarrow> A i j))"

subsection \<open>Example inputs\<close>

text \<open>\<open>[[1], [1]]\<close>, \<open>[[0], [1]]\<close>, \<open>[[1], [1], [1]]\<close>, \<open>[[5]]\<close>, \<open>[[1, 1]]\<close>,
  \<open>[[1, 1, 1]]\<close>, \<open>[[134217730], [134217731]]\<close>, \<open>[[0], [100]]\<close>, \<open>[[0], [1], [2]]\<close> and
  \<open>[[0], [0], [1]]\<close>.\<close>

definition ex_const2 :: ndarray where
  "ex_const2 = real_array 2 1 (\<lambda>i j. 1)"

definition ex_ramp2 :: ndarray where
  "ex_ramp2 = real_array 2 1 (\<lambda>i j. real i)"

definition ex_const3 :: ndarray where
  "ex_const3 = real_array 3 1 (\<lambda>i j. 1)"

definition ex_single :: ndarray where
  "ex_single = real_array 1 1 (\<lambda>i j. 5)"

definition ex_row2 :: ndarray where
  "ex_row2 = real_array 1 2 (\<lambda>i j. 1)"

definition ex_row3 :: ndarray where
  "ex_row3 = real_array 1 3 (\<lambda>i j. 1)"

definition ex_big :: ndarray where
  "ex_big = real_array 2 1 (\<lambda>i j. if i = 0 then 134217730 else 134217731)"

definition ex_far :: ndarray where
  "ex_far = real_array 2 1 (\<lambda>i j. if i = 0 then 0 else 100)"

definition ex_ramp3 :: ndarray where
  "ex_ramp3 = real_array 3 1 (\<lambda>i j. real i)"

definition ex_step3 :: ndarray where
  "ex_step3 = real_array 3 1 (\<lambda>i j. if i = 2 then 1 else 0)"

section \<open>Basic facts about the model\<close>

lemma and_then_Inr [simp]: "and_then (Inr x) f = f x"
  by (simp add: and_then_def)

lemma and_then_Inl [simp]: "and_then (Inl e) f = Inl e"
  by (simp add: and_then_def)

lemma Fin_minus [simp]: "Fin a - Fin b = Fin (a - b)"
  by (simp add: minus_float64_def)

lemma sum_Fin: "(\<Sum>k\<in>A. Fin (f k)) = Fin (\<Sum>k\<in>A. f k)"
  by (induction A rule: infinite_finite_induct) (simp_all add: zero_float64_def)

lemma real_array_sel [simp]:
  "nrows (real_array n m f) = n" "ncols (real_array n m f) = m"
  "item (real_array n m f) i j = Fin (f i j)"
  by (simp_all add: real_array_def)

lemma bdim_same [simp]: "bdim n n = Some n"
  by (simp add: bdim_def)

subsection \<open>The defining equations in exact arithmetic\<close>

lemma exact_apply [simp]: "exact v = v"
  by (simp add: exact_def)

lemma foldl_plus_sum:
  fixes f :: "nat \<Rightarrow> float64"
  shows "foldl (\<lambda>acc k. acc + f k) a [0..<n] = a + (\<Sum>k<n. f k)"
  by (induction n) (simp_all add: add.assoc)

lemma dot_exact: "dot_r exact n f g = (\<Sum>k<n. f k * g k)"
  by (simp add: dot_r_def foldl_plus_sum zero_float64_def [symmetric])

lemma py_div_exact:
  "py_div a b = (if b = Fin 0 then Inl ZeroDivisionError else Inr (np_divide a b))"
  by (simp add: py_div_def py_div_r_def)

lemma np_matmul_exact:
  "np_matmul A B =
     (if ncols A \<noteq> nrows B then Inl ValueError
      else Inr \<lparr>nrows = nrows A, ncols = ncols B,
                item = \<lambda>i j. \<Sum>k<ncols A. item A i k * item B k j\<rparr>)"
  by (simp add: np_matmul_def np_matmul_r_def dot_exact)

lemma scale_exact:
  "scale c A = \<lparr>nrows = nrows A, ncols = ncols A, item = \<lambda>i j. item A i j * c\<rparr>"
  by (simp add: scale_def scale_r_def)

lemma np_exp_exact:
  "np_exp A = \<lparr>nrows = nrows A, ncols = ncols A, item = \<lambda>i j. np_exp1 (item A i j)\<rparr>"
  by (simp add: np_exp_def np_exp_r_def)

lemma np_trace_exact: "np_trace A = (\<Sum>i<min (nrows A) (ncols A). item A i i)"
  by (simp add: np_trace_def np_trace_r_def foldl_plus_sum zero_float64_def [symmetric])

lemma centering_exact:
  "centering n =
     and_then (py_div (Fin 1) (Fin (real n))) (\<lambda>c.
     elementwise (-) (np_identity n) (scale c (np_ones n n)))"
  by (simp add: centering_def centering_r_def py_div_def scale_def)

lemma linear_kernel_exact: "linear_kernel X Y = np_matmul X (transpose_T Y)"
  by (simp add: linear_kernel_def linear_kernel_r_def np_matmul_def)

lemma rbf_exact:
  "rbf X Y sigma =
     and_then (np_matmul X (transpose_T Y)) (\<lambda>GX.
     and_then (elementwise (-) (np_diag GX) GX) (\<lambda>A.
     and_then (elementwise (-) (np_diag GX) GX) (\<lambda>B.
     and_then (elementwise (+) A (transpose_T B)) (\<lambda>KX.
     and_then (case sigma of None \<Rightarrow> Inl NameError | Some s \<Rightarrow> Inr s) (\<lambda>s.
     and_then (case s of Py v \<Rightarrow> py_div (Fin (- 0.5)) (v * v)
                       | Np v \<Rightarrow> Inr (np_divide (Fin (- 0.5)) (v * v))) (\<lambda>c.
     Inr (np_exp (scale c KX))))))))"
  by (cases sigma; cases "the sigma")
     (simp_all add: rbf_def rbf_r_def np_matmul_def py_div_def scale_def np_exp_def
        math_sqrt_def scalar_div_def)

lemma HSIC_exact:
  "HSIC K L =
     (let n = nrows K in
      and_then (centering n) (\<lambda>H.
      and_then (np_matmul K H) (\<lambda>KH.
      and_then (np_matmul L H) (\<lambda>LH.
      and_then (py_div (Fin 1) (Fin (real_of_int ((int n - 1) ^ 2)))) (\<lambda>c.
      and_then (np_matmul KH LH) (\<lambda>M.
      Inr (c * np_trace M)))))))"
  by (simp add: HSIC_def HSIC_r_def centering_def np_matmul_def py_div_def np_trace_def)

lemma choose_kernel_exact:
  "choose_kernel kern = (case kern of None \<Rightarrow> linear_kernel | Some f \<Rightarrow> f)"
  by (cases kern) (simp_all add: choose_kernel_def choose_kernel_r_def linear_kernel_def)

lemma CKA_exact:
  "CKA X Y kern =
     (let k = choose_kernel kern in
      and_then (k X X) (\<lambda>K.
      and_then (k Y Y) (\<lambda>L.
      and_then (HSIC K L) (\<lambda>hsic.
      and_then (HSIC K K) (\<lambda>hK.
      and_then (HSIC L L) (\<lambda>hL.
      Inr (np_divide hsic (np_sqrt hK * np_sqrt hL))))))))"
  by (simp add: CKA_def CKA_r_def choose_kernel_def HSIC_def)


lemma rbf_with_exact: "rbf_with s X Y = rbf X Y (Some s)"
  by (simp add: rbf_with_def rbf_with_r_def rbf_def)

lemma self_var_exact:
  "self_var kern X =
     and_then (choose_kernel kern X X) (\<lambda>K.
     and_then (HSIC K K) (\<lambda>hK. Inr (np_sqrt hK)))"
  by (simp add: self_var_def self_var_r_def choose_kernel_def HSIC_def)

lemmas np_defs = np_matmul_exact elementwise_def bdim_def bidx_def np_identity_def np_ones_def
  scale_exact np_trace_exact transpose_T_def np_diag_def np_exp_exact py_div_exact centering_exact

lemmas ex_defs = ex_const2_def ex_ramp2_def ex_const3_def ex_single_def ex_row2_def ex_row3_def
  real_array_def lessThan_Suc numeral_2_eq_2 numeral_3_eq_3 zero_float64_def

section \<open>IEEE 754 rounding\<close>

text \<open>Values of the form \<open>m 2\<^sup>e\<close> with \<open>\<bar>m\<bar> < 2\<^sup>5\<^sup>3\<close> are float64 values: rounding leaves
  them as they are.\<close>

lemma round_half_even_int [simp]: "round_half_even (of_int m) = m"
  by (simp add: round_half_even_def)

lemma floor_log2_eq:
  assumes "2 powi k \<le> x" "x < 2 powi (k + 1)"
  shows "\<lfloor>log 2 x\<rfloor> = k"
proof -
  have "0 < (2::real) powi k" by simp
  then have pos: "0 < x" using assms(1) by linarith
  have "2 powr (of_int k) = (2::real) powi k" "2 powr (of_int k + 1) = (2::real) powi (k + 1)"
    using powr_real_of_int' [of 2 k] powr_real_of_int' [of 2 "k + 1"] by simp_all
  then show ?thesis using pos assms by (simp add: floor_log_eq_powr_iff)
qed

lemma floor_log2_less:
  assumes "0 < x" "x < 2 powi k"
  shows "\<lfloor>log 2 x\<rfloor> < k"
proof -
  have "log 2 x < log 2 (2 powi k)"
    using assms by (simp add: log_less_cancel_iff)
  also have "log 2 (2 powi k) = of_int k"
    by (simp add: powr_real_of_int' [symmetric])
  finally show ?thesis by linarith
qed

lemma fl_representable:
  assumes "x = of_int m * 2 powi e" "\<bar>m\<bar> < 2 ^ 53" "- 1074 \<le> e"
  shows "fl x = x"
proof (cases "x = 0")
  case True then show ?thesis by (simp add: fl_def)
next
  case False
  then have m0: "m \<noteq> 0" using assms(1) by auto
  have "\<bar>x\<bar> = of_int \<bar>m\<bar> * 2 powi e" by (simp add: assms(1) abs_mult)
  also have "\<dots> < 2 ^ 53 * 2 powi e"
    using assms(2) by (intro mult_strict_right_mono) (simp_all add: of_int_less_numeral_power_cancel_iff)
  also have "\<dots> = 2 powi (53 + e)" by (simp add: power_int_add)
  finally have "\<lfloor>log 2 \<bar>x\<bar>\<rfloor> < 53 + e"
    using False by (intro floor_log2_less) simp_all
  then have le: "ulp_exponent x \<le> e" using assms(3) by (simp add: ulp_exponent_def)
  define u where "u = ulp_exponent x"
  define d where "d = nat (e - u)"
  have e: "e = u + int d" using le by (simp add: d_def u_def)
  have "x / 2 powi u = of_int m * 2 powi (u + int d) / 2 powi u"
    by (simp only: assms(1) e)
  also have "\<dots> = of_int (m * 2 ^ d)"
    by (simp add: power_int_add)
  finally have "round_half_even (x / 2 powi u) = m * 2 ^ d"
    by (simp only: round_half_even_int)
  then have "fl x = of_int (m * 2 ^ d) * 2 powi u"
    using False by (simp add: fl_def u_def)
  also have "\<dots> = of_int m * 2 powi e"
    by (simp add: e power_int_add)
  finally show ?thesis by (simp add: assms(1))
qed

lemma binary64_representable:
  assumes "x = of_int m * 2 powi e" "\<bar>m\<bar> < 2 ^ 53" "- 1074 \<le> e" "e \<le> 970"
  shows "binary64 (Fin x) = Fin x"
proof -
  have "\<bar>x\<bar> = of_int \<bar>m\<bar> * 2 powi e" by (simp add: assms(1) abs_mult)
  also have "\<dots> \<le> 2 ^ 53 * 2 powi e"
    using assms(2) by (intro mult_right_mono) (simp_all add: of_int_le_numeral_power_cancel_iff)
  also have "\<dots> = 2 powi (53 + e)" by (simp add: power_int_add)
  also have "\<dots> < 2 powi 1024"
    using assms(4) by (intro power_int_strict_increasing) simp_all
  finally have "\<bar>x\<bar> < 2 ^ 1024" by simp
  then show ?thesis
    by (simp add: binary64_def fl_representable [OF assms(1-3)])
qed

text \<open>Multiples of \<open>1/4\<close>, of 2 and of 4 that fit in 53 bits are float64 values.\<close>

lemma binary64_dyadic:
  assumes "(x * 4 \<in> \<int> \<and> \<bar>x\<bar> < 2 ^ 51) \<or> (x / 2 \<in> \<int> \<and> \<bar>x\<bar> < 2 ^ 54) \<or> (x / 4 \<in> \<int> \<and> \<bar>x\<bar> < 2 ^ 55)"
  shows "binary64 (Fin x) = Fin x"
proof -
  consider "x * 4 \<in> \<int> \<and> \<bar>x\<bar> < 2 ^ 51" | "x / 2 \<in> \<int> \<and> \<bar>x\<bar> < 2 ^ 54" | "x / 4 \<in> \<int> \<and> \<bar>x\<bar> < 2 ^ 55"
    using assms by blast
  then show ?thesis
  proof cases
    case 1
    then obtain m where m: "x * 4 = of_int m" by (auto elim: Ints_cases)
    have "\<bar>of_int m :: real\<bar> < 2 ^ 53" using 1 by (simp flip: m add: abs_mult)
    then have "\<bar>m\<bar> < 2 ^ 53" by (simp flip: of_int_abs add: of_int_less_numeral_power_cancel_iff)
    moreover have "x = of_int m * 2 powi (- 2)" by (simp flip: m add: power_int_minus)
    ultimately show ?thesis by (intro binary64_representable [where m = m and e = "- 2"]) simp_all
  next
    case 2
    then obtain m where m: "x / 2 = of_int m" by (auto elim: Ints_cases)
    have "\<bar>of_int m :: real\<bar> < 2 ^ 53" using 2 by (simp flip: m)
    then have "\<bar>m\<bar> < 2 ^ 53" by (simp flip: of_int_abs add: of_int_less_numeral_power_cancel_iff)
    moreover have "x = of_int m * 2 powi 1" by (simp flip: m)
    ultimately show ?thesis by (intro binary64_representable [where m = m and e = 1]) simp_all
  next
    case 3
    then obtain m where m: "x / 4 = of_int m" by (auto elim: Ints_cases)
    have "\<bar>of_int m :: real\<bar> < 2 ^ 53" using 3 by (simp flip: m)
    then have "\<bar>m\<bar> < 2 ^ 53" by (simp flip: of_int_abs add: of_int_less_numeral_power_cancel_iff)
    moreover have "x = of_int m * 2 powi 2" by (simp flip: m)
    ultimately show ?thesis by (intro binary64_representable [where m = m and e = 2]) simp_all
  qed
qed

text \<open>The rounding of a value between two powers of two, and of a value below half the
  smallest subnormal.\<close>

lemma fl_normal:
  assumes "2 powi k \<le> \<bar>x\<bar>" "\<bar>x\<bar> < 2 powi (k + 1)" "- 1022 \<le> k"
  shows "fl x = of_int (round_half_even (x / 2 powi (k - 52))) * 2 powi (k - 52)"
proof -
  have "0 < (2::real) powi k" by simp
  then have "0 < \<bar>x\<bar>" using assms(1) by linarith
  then have x: "x \<noteq> 0" by simp
  have "\<lfloor>log 2 \<bar>x\<bar>\<rfloor> = k" by (rule floor_log2_eq [OF assms(1,2)])
  then have "ulp_exponent x = k - 52" using assms(3) by (simp add: ulp_exponent_def)
  with x show ?thesis by (simp add: fl_def)
qed

lemma fl_underflow:
  assumes "0 < x" "x < 2 powi (- 1075)"
  shows "fl x = 0"
proof -
  have "x < 2 powi (- 1022)"
    using assms(2) by (rule less_trans) (intro power_int_strict_increasing, simp_all)
  then have "\<lfloor>log 2 \<bar>x\<bar>\<rfloor> < - 1022" using assms(1) by (intro floor_log2_less) simp_all
  then have u: "ulp_exponent x = - 1074" unfolding ulp_exponent_def by linarith
  have "x / 2 powi (- 1074) < 2 powi (- 1075) / 2 powi (- 1074)"
    using assms(2) by (intro divide_strict_right_mono) simp_all
  also have "\<dots> = 1/2" by (simp add: power_int_minus field_simps)
  finally have q: "x / 2 powi (- 1074) < 1/2" .
  have q0: "0 \<le> x / 2 powi (- 1074)" using assms(1) by simp
  have "\<lfloor>x / 2 powi (- 1074)\<rfloor> = 0" using q q0 by (simp add: floor_eq_iff)
  then have "round_half_even (x / 2 powi (- 1074)) = 0"
    using q by (simp add: round_half_even_def)
  then show ?thesis by (simp add: fl_def u)
qed

lemma binary64_special [simp]:
  "binary64 (Fin 0) = Fin 0" "binary64 PInf = PInf" "binary64 NInf = NInf" "binary64 NaN = NaN"
  by (simp_all add: binary64_def fl_def)

subsection \<open>Evaluation in float64\<close>

text \<open>The definitions unfolded when the functions are evaluated on a concrete input.\<close>

lemmas eval_defs = CKA_r_def choose_kernel_r_def linear_kernel_r_def HSIC_r_def centering_r_def
  np_matmul_r_def dot_r_def np_trace_r_def scale_r_def elementwise_def bdim_def bidx_def
  np_identity_def np_ones_def transpose_T_def py_div_r_def real_array_def self_var_r_def
  rbf_r_def np_diag_def scalar_div_def np_exp_r_def numeral_2_eq_2

text \<open>The two products of the Gram matrix of \<open>[[134217730], [134217731]]\<close> that are
  not float64 values, rounded: \<open>134217730 \<times> 134217731\<close> and \<open>134217731\<^sup>2\<close>.\<close>

lemma binary64_products:
  "binary64 (Fin 18014399180570630) = Fin 18014399180570632"
  "binary64 (Fin 18014399314788361) = Fin 18014399314788360"
proof -
  have "fl 18014399180570630 = 18014399180570632"
    by (subst fl_normal [where k = 54]) (simp_all add: round_half_even_def)
  then show "binary64 (Fin 18014399180570630) = Fin 18014399180570632"
    by (simp add: binary64_def)
  have "fl 18014399314788361 = 18014399314788360"
    by (subst fl_normal [where k = 54]) (simp_all add: round_half_even_def)
  then show "binary64 (Fin 18014399314788361) = Fin 18014399314788360"
    by (simp add: binary64_def)
qed

lemma round_half_even_bounds: "\<lfloor>q\<rfloor> \<le> round_half_even q" "round_half_even q \<le> \<lfloor>q\<rfloor> + 1"
  by (simp_all add: round_half_even_def Let_def)

lemma fl_binade:
  assumes "2 powi k \<le> x" "x < 2 powi (k + 1)" "- 1022 \<le> k"
  shows "2 powi k \<le> fl x" "fl x \<le> 2 powi (k + 1)"
proof -
  define q where "q = x / 2 powi (k - 52)"
  have "0 < (2::real) powi k" by simp
  then have x: "\<bar>x\<bar> = x" using assms(1) by linarith
  have f: "fl x = of_int (round_half_even q) * 2 powi (k - 52)"
    unfolding q_def using assms by (intro fl_normal) (simp_all add: x)
  have "2 powi k / 2 powi (k - 52) \<le> q"
    unfolding q_def using assms(1) by (intro divide_right_mono) simp_all
  moreover have "q < 2 powi (k + 1) / 2 powi (k - 52)"
    unfolding q_def using assms(2) by (intro divide_strict_right_mono) simp_all
  moreover have "(2::real) powi k / 2 powi (k - 52) = 2 ^ 52" "(2::real) powi (k + 1) / 2 powi (k - 52) = 2 ^ 53"
    by (simp_all add: power_int_diff power_int_add)
  ultimately have "2 ^ 52 \<le> q" "q < 2 ^ 53" by simp_all
  then have "2 ^ 52 \<le> \<lfloor>q\<rfloor>" "\<lfloor>q\<rfloor> < 2 ^ 53"
    by (simp_all add: le_floor_iff floor_less_iff)
  then have "2 ^ 52 \<le> round_half_even q" "round_half_even q \<le> 2 ^ 53"
    using round_half_even_bounds [of q] by linarith+
  then have r: "(2::real) ^ 52 \<le> of_int (round_half_even q)" "of_int (round_half_even q) \<le> (2::real) ^ 53"
    by (simp_all add: numeral_power_le_of_int_cancel_iff of_int_le_numeral_power_cancel_iff)
  have "2 powi k = 2 ^ 52 * (2::real) powi (k - 52)" "2 powi (k + 1) = 2 ^ 53 * (2::real) powi (k - 52)"
    by (simp_all add: power_int_diff power_int_add)
  then show "2 powi k \<le> fl x" "fl x \<le> 2 powi (k + 1)"
    using r by (simp_all add: f)
qed

text \<open>\<open>exp(-5000)\<close> is below half the smallest subnormal and rounds to 0; \<open>exp(2)\<close>
  rounds to a value of at least 4; \<open>2\<^sup>-\<^sup>6\<^sup>0\<^sup>0\<close> squared rounds to 0.\<close>

lemma exp_underflow: "exp (- 5000 :: real) < 2 powi (- 1075)"
proof -
  have "(2::real) ^ 1075 < 2 ^ 5000" by (intro power_strict_increasing) simp_all
  also have "\<dots> \<le> exp 1 ^ 5000"
    using exp_ge_add_one_self [of "1::real"] by (intro power_mono) simp_all
  also have "\<dots> = exp (5000 :: real)" by (simp flip: exp_of_nat_mult)
  finally have "inverse (exp (5000::real)) < inverse (2 ^ 1075)"
    by (intro less_imp_inverse_less) simp_all
  then show ?thesis by (simp add: exp_minus power_int_minus)
qed

lemma binary64_exp_underflow: "binary64 (Fin (exp (- 5000))) = Fin 0"
  using fl_underflow [OF _ exp_underflow] by (simp add: binary64_def)

lemma fl_exp_2: "4 \<le> fl (exp 2)" "fl (exp 2) \<le> 16"
proof -
  have e: "exp (2::real) = exp 1 * exp 1" by (simp flip: exp_add)
  have "2 * 2 \<le> exp (1::real) * exp 1"
    using exp_ge_add_one_self [of "1::real"] by (intro mult_mono) simp_all
  then have lo: "4 \<le> exp (2::real)" by (simp add: e)
  have "exp (1::real) * exp 1 \<le> 3 * 3"
    using exp_le by (intro mult_mono) simp_all
  then have hi: "exp (2::real) < 16" by (simp add: e)
  have "4 \<le> fl (exp 2) \<and> fl (exp 2) \<le> 16"
  proof (cases "exp (2::real) < 8")
    case True
    then show ?thesis
      using fl_binade [of 2 "exp 2"] lo by simp
  next
    case False
    then show ?thesis
      using fl_binade [of 3 "exp 2"] hi by simp
  qed
  then show "4 \<le> fl (exp 2)" "fl (exp 2) \<le> 16" by simp_all
qed

lemma binary64_exp_2: "binary64 (Fin (exp 2)) = Fin (fl (exp 2))"
proof -
  have "\<bar>fl (exp 2)\<bar> \<le> 16" using fl_exp_2 by simp
  also have "(16::real) < 2 ^ 1024" by simp
  finally show ?thesis by (simp add: binary64_def)
qed

lemma binary64_tiny_square: "binary64 (Fin (2 powi (- 600)) * Fin (2 powi (- 600))) = Fin 0"
proof -
  have "(2::real) powi (- 600) * 2 powi (- 600) = 2 powi (- 1200)"
    by (simp flip: power_int_add)
  moreover have "fl (2 powi (- 1200)) = 0"
    by (intro fl_underflow power_int_strict_increasing) simp_all
  ultimately show ?thesis by (simp add: binary64_def)
qed

section \<open>Error behaviour\<close>

text \<open>
  Claim C6.  For every pair of \<open>n \<times> n\<close> arrays with \<open>n \<le> 1\<close>, \<^verbatim>\<open>HSIC\<close> raises
  \<^verbatim>\<open>ZeroDivisionError\<close>: at \<^verbatim>\<open>1./n\<close> when \<open>n = 0\<close>, at \<^verbatim>\<open>1./((n-1)**2)\<close> when
  \<open>n = 1\<close>.  No number is returned.
\<close>

theorem HSIC_size_le_1:
  "nrows K = n \<Longrightarrow> ncols K = n \<Longrightarrow> nrows L = n \<Longrightarrow> ncols L = n \<Longrightarrow> n \<le> 1
   \<Longrightarrow> HSIC K L = Inl ZeroDivisionError"
proof -
  assume s: "nrows K = n" "ncols K = n" "nrows L = n" "ncols L = n" and "n \<le> 1"
  then consider "n = 0" | "n = 1" by linarith
  then show ?thesis
  proof cases
    case 1
    with s show ?thesis by (simp add: HSIC_exact centering_exact py_div_exact)
  next
    case 2
    with s show ?thesis by (simp add: HSIC_exact np_defs)
  qed
qed

theorem HSIC_size_le_1_witness:
  "HSIC ex_single ex_single = Inl ZeroDivisionError"
  using HSIC_size_le_1 [of ex_single 1 ex_single] by (simp add: ex_single_def)

text \<open>
  Claim C5, as stated, fails: \<^verbatim>\<open>linear_kernel\<close> on a \<open>2 \<times> 1\<close> and a \<open>3 \<times> 1\<close> array
  raises nothing and returns a \<open>2 \<times> 3\<close> array.
\<close>

theorem linear_kernel_rows_counterexample:
  "nrows ex_const2 \<noteq> nrows ex_const3 \<and> \<not> isl (linear_kernel ex_const2 ex_const3)"
  by (simp add: linear_kernel_exact np_matmul_exact transpose_T_def ex_const2_def ex_const3_def)

text \<open>
  Claim C5, amended.  \<^verbatim>\<open>linear_kernel(X, Y)\<close> raises \<^verbatim>\<open>ValueError\<close> exactly when \<open>X\<close> and
  \<open>Y\<close> differ in their number of columns.  Otherwise it returns the product \<open>X Y\<^sup>T\<close>, of
  shape (rows of \<open>X\<close>, rows of \<open>Y\<close>), whether or not the row counts agree.
\<close>

theorem linear_kernel_result:
  "linear_kernel X Y =
     (if ncols X \<noteq> ncols Y then Inl ValueError
      else Inr \<lparr>nrows = nrows X, ncols = nrows Y,
                item = \<lambda>i j. \<Sum>k<ncols X. item X i k * item Y j k\<rparr>)"
  by (simp add: linear_kernel_exact np_matmul_exact transpose_T_def)

theorem linear_kernel_result_witness:
  "linear_kernel ex_const2 ex_const3 = Inr (real_array 2 3 (\<lambda>i j. 1)) \<and>
   linear_kernel ex_row2 ex_row3 = Inl ValueError"
  using linear_kernel_result [of ex_const2 ex_const3] linear_kernel_result [of ex_row2 ex_row3]
  by (simp add: ex_defs)

subsection \<open>The bandwidth of \<^verbatim>\<open>rbf\<close>\<close>

lemmas rbf_r_steps = rbf_r_def np_matmul_r_def elementwise_def bdim_def np_diag_def
  transpose_T_def scalar_div_def py_div_r_def math_sqrt_def

text \<open>
  Claim C3.  The notebook documents that the bandwidth is chosen from the median when
  none is given, and \<^verbatim>\<open>rbf\<close> attempts it; but it calls \<^verbatim>\<open>math.sqrt\<close> and the notebook
  never imports \<^verbatim>\<open>math\<close>.  Under any rounding, whenever the distance matrix can be formed
  (same number of columns; same number of rows, or one of them a single row), a call
  with no bandwidth raises \<^verbatim>\<open>NameError\<close> and returns no Gram matrix.
\<close>

theorem rbf_no_bandwidth_NameError:
  assumes "ncols X = ncols Y" and "nrows X = nrows Y \<or> nrows X = 1 \<or> nrows Y = 1"
  shows "rbf_r r X Y None = Inl NameError"
  using assms by (auto simp add: rbf_r_steps min_def)

theorem rbf_no_bandwidth_NameError_witness:
  "rbf_r binary64 ex_ramp2 ex_ramp2 None = Inl NameError \<and>
   rbf_r exact ex_ramp2 ex_ramp2 None = Inl NameError"
  using rbf_no_bandwidth_NameError [of ex_ramp2 ex_ramp2 binary64]
    rbf_no_bandwidth_NameError [of ex_ramp2 ex_ramp2 exact]
  by (simp add: ex_ramp2_def)

text \<open>
  Claim C10, as stated, fails: with the bandwidth \<^verbatim>\<open>np.float64(0.0)\<close> the division
  \<^verbatim>\<open>- 0.5 / (sigma * sigma)\<close> is NumPy's, it warns and gives \<open>-inf\<close>, and \<^verbatim>\<open>rbf\<close> returns an
  array: on \<open>X = Y = [[0], [1]]\<close> it is \<open>[[nan, 0], [0, nan]]\<close>.
\<close>

theorem rbf_sigma_zero_counterexample:
  "\<not> isl (rbf_r binary64 ex_ramp2 ex_ramp2 (Some (Np (Fin 0)))) \<and>
   nrows (projr (rbf_r binary64 ex_ramp2 ex_ramp2 (Some (Np (Fin 0))))) = 2 \<and>
   ncols (projr (rbf_r binary64 ex_ramp2 ex_ramp2 (Some (Np (Fin 0))))) = 2 \<and>
   item (projr (rbf_r binary64 ex_ramp2 ex_ramp2 (Some (Np (Fin 0))))) 0 0 = NaN \<and>
   item (projr (rbf_r binary64 ex_ramp2 ex_ramp2 (Some (Np (Fin 0))))) 0 1 = Fin 0 \<and>
   item (projr (rbf_r binary64 ex_ramp2 ex_ramp2 (Some (Np (Fin 0))))) 1 0 = Fin 0 \<and>
   item (projr (rbf_r binary64 ex_ramp2 ex_ramp2 (Some (Np (Fin 0))))) 1 1 = NaN"
  by (simp add: eval_defs ex_ramp2_def binary64_dyadic)

text \<open>
  Claim C10, amended.  Whenever \<^verbatim>\<open>rbf\<close> reaches the scaling step (\<open>X\<close> and \<open>Y\<close> have the
  same number of columns, and the same number of rows or one of them a single row), a
  supplied bandwidth that is the Python number 0 raises \<^verbatim>\<open>ZeroDivisionError\<close> at
  \<^verbatim>\<open>- 0.5 / (sigma * sigma)\<close>, which is not guarded, and no Gram matrix is returned.  A
  supplied NumPy float64 zero raises nothing: \<^verbatim>\<open>rbf\<close> returns an array.  This holds under
  every rounding that leaves 0 unchanged.
\<close>

theorem rbf_sigma_zero:
  assumes "r (Fin 0) = Fin 0"
    and "ncols X = ncols Y" and "nrows X = nrows Y \<or> nrows X = 1 \<or> nrows Y = 1"
  shows "rbf_r r X Y (Some (Py (Fin 0))) = Inl ZeroDivisionError \<and>
         \<not> isl (rbf_r r X Y (Some (Np (Fin 0))))"
  using assms by (auto simp add: rbf_r_steps min_def)

theorem rbf_sigma_zero_witness:
  "rbf_r binary64 ex_ramp2 ex_ramp2 (Some (Py (Fin 0))) = Inl ZeroDivisionError \<and>
   \<not> isl (rbf_r binary64 ex_ramp2 ex_ramp2 (Some (Np (Fin 0))))"
  using rbf_sigma_zero [of binary64 ex_ramp2 ex_ramp2]
  by (simp add: ex_ramp2_def)

subsection \<open>Zero variance\<close>

lemma np_sqrt_not_NInf: "np_sqrt v \<noteq> NInf"
  by (cases v) simp_all

lemma np_divide_by_zero: "d = Fin 0 \<or> d = NaN \<Longrightarrow> np_divide h d \<in> {NaN, PInf, NInf}"
  by (cases h) (auto split: if_splits)

lemma zero_var_product:
  "a = Fin 0 \<or> b = Fin 0 \<Longrightarrow> a \<noteq> NInf \<Longrightarrow> b \<noteq> NInf \<Longrightarrow> a * b = Fin 0 \<or> a * b = NaN"
  by (cases a; cases b) auto

lemma lin_const2: "choose_kernel None ex_const2 ex_const2 = Inr (real_array 2 2 (\<lambda>i j. 1))"
  by (simp add: choose_kernel_exact linear_kernel_exact np_defs ex_defs)

lemma lin_ramp2:
  "choose_kernel None ex_ramp2 ex_ramp2 = Inr (real_array 2 2 (\<lambda>i j. real i * real j))"
  by (simp add: choose_kernel_exact linear_kernel_exact np_defs ex_defs)

lemma HSIC_ones2: "HSIC (real_array 2 2 (\<lambda>i j. 1)) (real_array 2 2 l) = Inr (Fin 0)"
  by (simp add: HSIC_exact np_defs ex_defs)

lemma HSIC_ramp2:
  "HSIC (real_array 2 2 (\<lambda>i j. real i * real j)) (real_array 2 2 (\<lambda>i j. real i * real j))
     = Inr (Fin (1/4))"
  by (simp add: HSIC_exact np_defs ex_defs)

text \<open>
  Claim C4, as stated, fails: for the constant representation \<open>[[1], [1]]\<close> the value
  \<^verbatim>\<open>varK\<close> is zero, and \<^verbatim>\<open>CKA\<close> raises nothing and returns \<open>nan\<close>.
\<close>

theorem CKA_zero_variance_counterexample:
  "self_var None ex_const2 = Inr (Fin 0) \<and> CKA ex_const2 ex_ramp2 None = Inr NaN"
  by (simp add: self_var_exact CKA_exact choose_kernel_exact linear_kernel_exact HSIC_exact np_defs ex_defs)

text \<open>
  Claim C4, amended.  When the kernel and the three HSIC computations succeed and
  \<^verbatim>\<open>varK\<close> or \<^verbatim>\<open>varL\<close> is zero, \<^verbatim>\<open>CKA\<close> raises no exception: the final division is
  NumPy's, and the value returned is \<open>nan\<close>, \<open>+inf\<close> or \<open>-inf\<close>.
\<close>

theorem CKA_zero_variance:
  assumes "choose_kernel kern X X = Inr K" and "choose_kernel kern Y Y = Inr L"
    and "HSIC K L = Inr h" and "HSIC K K = Inr hK" and "HSIC L L = Inr hL"
    and "np_sqrt hK = Fin 0 \<or> np_sqrt hL = Fin 0"
  shows "CKA X Y kern = Inr (np_divide h (np_sqrt hK * np_sqrt hL)) \<and>
         np_divide h (np_sqrt hK * np_sqrt hL) \<in> {NaN, PInf, NInf}"
proof -
  have "np_sqrt hK * np_sqrt hL = Fin 0 \<or> np_sqrt hK * np_sqrt hL = NaN"
    using assms(6) by (intro zero_var_product np_sqrt_not_NInf)
  then have "np_divide h (np_sqrt hK * np_sqrt hL) \<in> {NaN, PInf, NInf}"
    by (rule np_divide_by_zero)
  moreover have "CKA X Y kern = Inr (np_divide h (np_sqrt hK * np_sqrt hL))"
    using assms(1-5) by (simp add: CKA_exact)
  ultimately show ?thesis by simp
qed

theorem CKA_zero_variance_witness:
  "CKA ex_const2 ex_ramp2 None = Inr NaN"
  using CKA_zero_variance [OF lin_const2 lin_ramp2 HSIC_ones2 HSIC_ones2 HSIC_ramp2]
  by simp

section \<open>Real arrays\<close>

lemma if_Fin: "(if c then Fin a else Fin b) = Fin (if c then a else b)"
  by simp

lemma matmul_real_array:
  "np_matmul (real_array n p a) (real_array p m b) = Inr (real_array n m (\<lambda>i j. \<Sum>k<p. a i k * b k j))"
  by (simp add: np_matmul_exact real_array_def sum_Fin)

lemma transpose_real_array: "transpose_T (real_array n m f) = real_array m n (\<lambda>i j. f j i)"
  by (simp add: transpose_T_def real_array_def)

lemma linear_kernel_real:
  "linear_kernel (real_array n p x) (real_array m p y) = Inr (real_array n m (gram p x y))"
  by (simp add: linear_kernel_exact transpose_real_array matmul_real_array gram_def)

section \<open>The value of HSIC\<close>

lemma centering_real:
  "2 \<le> n \<Longrightarrow> centering n = Inr (real_array n n (centering_H n))"
  by (simp add: centering_exact py_div_exact elementwise_def bidx_def scale_exact np_ones_def
      np_identity_def real_array_def centering_H_def if_Fin del: if_split)

lemma matmul_real_square:
  "np_matmul (real_array n n a) (real_array n n b) = Inr (real_array n n (mat_mul n a b))"
  by (simp add: matmul_real_array mat_mul_def)

lemma trace_real_array: "np_trace (real_array n n a) = Fin (mat_trace n a)"
  by (simp add: np_trace_exact mat_trace_def sum_Fin)

lemma HSIC_real:
  assumes "2 \<le> n"
  shows "HSIC (real_array n n K) (real_array n n L) = Inr (Fin (hsic_real n K L))"
proof -
  have "real n - 1 \<noteq> 0" using assms by simp
  then show ?thesis
    using assms
    by (simp add: HSIC_exact centering_real matmul_real_square trace_real_array py_div_exact
        hsic_real_def)
qed




section \<open>The RBF kernel on a real representation\<close>

lemma gram_sym: "gram p x x i j = gram p x x j i"
  by (simp add: gram_def mult.commute)

lemma sqdist_sum: "sqdist p x i j = (\<Sum>k<p. (x i k - x j k)\<^sup>2)"
  by (simp add: sqdist_def gram_def power2_diff sum.distrib sum_subtractf sum_distrib_left power2_eq_square algebra_simps)

lemma sqdist_nonneg: "0 \<le> sqdist p x i j"
  by (simp add: sqdist_sum sum_nonneg)

lemma sqdist_diag [simp]: "sqdist p x i i = 0"
  by (simp add: sqdist_sum)

lemma np_diag_real: "np_diag (real_array n n g) = real_array 1 n (\<lambda>i j. g j j)"
  by (simp add: np_diag_def real_array_def)

lemma bdim_1 [simp]: "bdim 1 n = Some n" "bdim (Suc 0) n = Some n"
  by (auto simp add: bdim_def)

lemma bidx_idem [simp]: "bidx n (bidx n i) = bidx n i"
  by (simp add: bidx_def)

lemma bidx_1 [simp]: "bidx 1 i = 0" "bidx (Suc 0) i = 0"
  by (simp_all add: bidx_def)

lemma bidx_in_range: "i < n \<Longrightarrow> bidx n i = i"
  by (auto simp add: bidx_def)

lemma bidx_ge2: "2 \<le> n \<Longrightarrow> bidx n = (\<lambda>i. i)"
  by (auto simp add: bidx_def fun_eq_iff)

lemma elementwise_minus_row:
  "elementwise (-) (real_array (Suc 0) n d) (real_array n n g)
     = Inr (real_array n n (\<lambda>i j. d 0 (bidx n j) - g (bidx n i) (bidx n j)))"
  by (simp add: elementwise_def) (simp add: real_array_def)

lemma elementwise_plus_square:
  "elementwise (+) (real_array n n a) (real_array n n b)
     = Inr (real_array n n (\<lambda>i j. a (bidx n i) (bidx n j) + b (bidx n i) (bidx n j)))"
  by (simp add: elementwise_def) (simp add: real_array_def)

text \<open>The array \<^verbatim>\<open>KX\<close> before scaling, and the rest of \<^verbatim>\<open>rbf\<close> in terms of it.\<close>

lemma rbf_distances:
  "rbf (real_array n p x) (real_array n p x) sigma =
     and_then (case sigma of None \<Rightarrow> Inl NameError | Some s \<Rightarrow> Inr s) (\<lambda>s.
     and_then (case s of Py v \<Rightarrow> py_div (Fin (- 0.5)) (v * v)
                       | Np v \<Rightarrow> Inr (np_divide (Fin (- 0.5)) (v * v))) (\<lambda>c.
     Inr (np_exp (scale c (real_array n n (\<lambda>i j. sqdist p x (bidx n i) (bidx n j)))))))"
proof -
  have G: "np_matmul (real_array n p x) (real_array p n (\<lambda>i j. x j i)) = Inr (real_array n n (gram p x x))"
    by (simp add: matmul_real_array gram_def)
  have D: "(\<lambda>i j. gram p x x (bidx n j) (bidx n j) - gram p x x (bidx n i) (bidx n j)
              + (gram p x x (bidx n i) (bidx n i) - gram p x x (bidx n j) (bidx n i)))
           = (\<lambda>i j. sqdist p x (bidx n i) (bidx n j))"
    by (simp add: sqdist_def fun_eq_iff gram_sym [of p x "bidx n _" "bidx n _"])
  show ?thesis
    unfolding rbf_exact
    by (simp add: G np_diag_real elementwise_minus_row transpose_real_array elementwise_plus_square D)
qed

lemma scaled_exp_real:
  "np_exp (scale (Fin c) (real_array n m d)) = real_array n m (\<lambda>i j. exp (d i j * c))"
  by (simp add: np_exp_exact scale_exact real_array_def)

lemma rbf_sigma_real:
  assumes "s \<noteq> 0" and "sg = Py (Fin s) \<or> sg = Np (Fin s)"
  shows "rbf (real_array n p x) (real_array n p x) (Some sg)
         = Inr (real_array n n (\<lambda>i j. exp (sqdist p x (bidx n i) (bidx n j) * (- (1/2) / (s * s)))))"
  using assms by (auto simp add: rbf_distances py_div_exact scaled_exp_real)

text \<open>
  Claim C9, as stated, fails in float64: on \<open>X = Y = [[0], [100]]\<close> with the bandwidth 1
  the entry off the diagonal is \<open>exp(-5000)\<close>, which underflows to 0, and 0 is not in
  \<open>(0, 1]\<close>.
\<close>

theorem rbf_supplied_sigma_counterexample:
  "\<not> isl (rbf_r binary64 ex_far ex_far (Some (Py (Fin 1)))) \<and>
   item (projr (rbf_r binary64 ex_far ex_far (Some (Py (Fin 1))))) 0 1 = Fin 0"
  by (simp add: eval_defs ex_far_def binary64_dyadic binary64_exp_underflow)

text \<open>Two more departures in float64.  On \<open>X = Y = [[134217730], [134217731]]\<close> the
  rounding of the Gram matrix makes the distance \<^verbatim>\<open>KX[0, 1]\<close> negative, \<open>-4\<close>, and the
  entry is \<open>exp(2)\<close> rounded, which is above 1.  With the nonzero Python bandwidth
  \<open>2\<^sup>-\<^sup>6\<^sup>0\<^sup>0\<close> the product \<^verbatim>\<open>sigma * sigma\<close> underflows to 0 and the division raises.\<close>

lemma rbf_binary64_above_one:
  "item (projr (rbf_r binary64 ex_big ex_big (Some (Py (Fin 1))))) 0 1 = Fin (fl (exp 2)) \<and>
   1 < fl (exp 2)"
  using fl_exp_2(1)
  by (simp add: eval_defs ex_big_def binary64_dyadic binary64_products binary64_exp_2)

lemma rbf_binary64_tiny_bandwidth:
  "rbf_r binary64 ex_ramp2 ex_ramp2 (Some (Py (Fin (2 powi (- 600))))) = Inl ZeroDivisionError"
  using binary64_tiny_square by (simp add: eval_defs ex_ramp2_def binary64_dyadic)

text \<open>The diagonal survives rounding: under every rounding that leaves 0 and 1 unchanged,
  a diagonal entry of the result is 1 whenever the Gram diagonal entry \<^verbatim>\<open>GX[i, i]\<close> and
  the scale factor \<^verbatim>\<open>- 0.5 / (sigma * sigma)\<close> are finite.\<close>

lemma rbf_r_diagonal:
  assumes "r (Fin 0) = Fin 0" and "r (Fin 1) = Fin 1"
    and "rbf_r r X X (Some sg) = Inr K" and "i < nrows X"
    and "dot_r r (ncols X) (item X i) (item X i) = Fin g"
    and "r (np_divide (Fin (- 0.5)) (r (scalar_value sg * scalar_value sg))) = Fin c"
  shows "item K i i = Fin 1"
proof -
  have b: "bidx (nrows X) i = i" using assms(4) by (auto simp add: bidx_def)
  show ?thesis
    using assms(1,2,3,5,6)
    by (cases sg)
      (auto simp add: rbf_r_steps scale_r_def np_exp_r_def min_def b split: if_splits)
qed

lemma rbf_binary64_diagonal:
  "item (projr (rbf_r binary64 ex_big ex_big (Some (Py (Fin 1))))) 1 1 = Fin 1"
  by (rule rbf_r_diagonal [of binary64 ex_big "Py (Fin 1)" _ 1 18014399314788360 "- 1 / 2"])
    (simp_all add: eval_defs ex_big_def binary64_dyadic binary64_products)

text \<open>
  Claim C9, amended.  In exact arithmetic, that is with the rounding \<open>exact\<close>: for a real
  \<open>n \<times> p\<close> representation \<open>X\<close> and a supplied finite nonzero bandwidth \<open>s\<close>, a Python
  number or a NumPy scalar, \<^verbatim>\<open>rbf(X, X, s)\<close> returns the \<open>n \<times> n\<close> array with
  \<open>K[i,j] = exp(- D[i,j] / (2 s\<^sup>2))\<close>, where \<open>D[i,j] = G[i,i] - 2 G[i,j] + G[j,j]\<close> and
  \<open>G = X X\<^sup>T\<close>; every entry lies in \<open>(0, 1]\<close> and every diagonal entry is 1.
\<close>

theorem rbf_supplied_sigma:
  assumes "s \<noteq> 0" and "sg = Py (Fin s) \<or> sg = Np (Fin s)"
  shows "\<exists>K. rbf_r exact (real_array n p x) (real_array n p x) (Some sg) = Inr K \<and>
           nrows K = n \<and> ncols K = n \<and>
           (\<forall>i<n. \<forall>j<n. item K i j = Fin (exp (- sqdist p x i j / (2 * s\<^sup>2))) \<and>
                          0 < exp (- sqdist p x i j / (2 * s\<^sup>2)) \<and>
                          exp (- sqdist p x i j / (2 * s\<^sup>2)) \<le> 1) \<and>
           (\<forall>i<n. item K i i = Fin 1)"
  unfolding rbf_def [symmetric] rbf_sigma_real [OF assms]
  by (intro exI [of _ "real_array n n (\<lambda>i j. exp (sqdist p x (bidx n i) (bidx n j) * (- (1/2) / (s * s))))"])
     (simp add: bidx_in_range power2_eq_square sqdist_nonneg)

theorem rbf_supplied_sigma_witness:
  "\<exists>K. rbf_r exact ex_ramp2 ex_ramp2 (Some (Py (Fin 1))) = Inr K \<and> nrows K = 2 \<and> ncols K = 2 \<and>
       item K 0 1 = Fin (exp (- 1 / 2)) \<and> item K 1 1 = Fin 1"
  using rbf_supplied_sigma [of 1 "Py (Fin 1)" 2 1 "\<lambda>i j. real i"]
  by (auto simp add: ex_ramp2_def sqdist_def gram_def)

section \<open>Worked examples\<close>

text \<open>The pipeline evaluated on \<open>X = [[0], [1], [2]]\<close> and \<open>Y = [[0], [0], [1]]\<close> with the
  linear kernel, where \<^verbatim>\<open>CKA(X, Y)\<close> is \<open>3/4\<close>, and on \<open>[[0], [1]]\<close> with both kernels.\<close>

lemmas sum3 = lessThan_Suc numeral_2_eq_2 numeral_3_eq_3


lemma rbf_ramp2:
  "rbf_with (Py (Fin 1)) ex_ramp2 ex_ramp2
     = Inr (real_array 2 2 (\<lambda>i j. exp (sqdist 1 (\<lambda>i j. real i) i j * (- (1/2)))))"
  using rbf_sigma_real [of 1 "Py (Fin 1)" 2 1 "\<lambda>i j. real i"]
  by (simp add: rbf_with_exact ex_ramp2_def bidx_ge2)

lemma hsic_rbf_ramp2:
  "hsic_real 2 (\<lambda>i j. exp (sqdist 1 (\<lambda>i j. real i) i j * (- (1/2)))) (\<lambda>i j. exp (sqdist 1 (\<lambda>i j. real i) i j * (- (1/2))))
     = (1 - exp (- (1/2)))\<^sup>2"
  by (simp add: hsic_real_def mat_trace_def mat_mul_def centering_H_def sqdist_def gram_def sum3 power2_eq_square algebra_simps)

lemma self_var_ramp2_rbf:
  "self_var (Some (rbf_with (Py (Fin 1)))) ex_ramp2 = Inr (Fin (sqrt ((1 - exp (- (1/2)))\<^sup>2)))"
  unfolding self_var_exact choose_kernel_exact option.case rbf_ramp2 and_then_Inr
    HSIC_real [of 2, simplified] hsic_rbf_ramp2
  by simp

lemma lin_ramp3: "choose_kernel None ex_ramp3 ex_ramp3 = Inr (real_array 3 3 (\<lambda>i j. real i * real j))"
  by (simp add: choose_kernel_exact ex_ramp3_def linear_kernel_real gram_def)

lemma lin_step3: "choose_kernel None ex_step3 ex_step3 = Inr (real_array 3 3 (\<lambda>i j. if i = 2 \<and> j = 2 then 1 else 0))"
  by (simp add: choose_kernel_exact ex_step3_def linear_kernel_real gram_def) (simp add: fun_eq_iff)

lemma hsic_ramp3: "hsic_real 3 (\<lambda>i j. real i * real j) (\<lambda>i j. real i * real j) = 1"
  by (simp add: hsic_real_def mat_trace_def mat_mul_def centering_H_def sum3)

lemma hsic_step3: "hsic_real 3 (\<lambda>i j. if i = 2 \<and> j = 2 then 1 else 0) (\<lambda>i j. if i = 2 \<and> j = 2 then 1 else 0) = 1/9"
  by (simp add: hsic_real_def mat_trace_def mat_mul_def centering_H_def sum3)

lemma self_var_ramp3: "self_var None ex_ramp3 = Inr (Fin 1)"
  by (simp add: self_var_exact lin_ramp3 HSIC_real hsic_ramp3)

lemma self_var_step3: "self_var None ex_step3 = Inr (Fin (sqrt (1/9)))"
  by (simp add: self_var_exact lin_step3 HSIC_real hsic_step3)

lemma hsic_ramp_step3:
  "hsic_real 3 (\<lambda>i j. real i * real j) (\<lambda>i j. if i = 2 \<and> j = 2 then 1 else 0) = 1/4"
  by (simp add: hsic_real_def mat_trace_def mat_mul_def centering_H_def sum3)

lemma sqrt_ninth: "sqrt (1/9) = 1/3"
  by (rule real_sqrt_unique) (simp_all add: power2_eq_square)

lemma CKA_ramp_step3: "CKA ex_ramp3 ex_step3 None = Inr (Fin (3/4))"
  by (simp add: CKA_exact lin_ramp3 lin_step3 HSIC_real hsic_ramp3 hsic_step3 hsic_ramp_step3
      sqrt_ninth)

text \<open>On \<open>[[0], [1]]\<close> every intermediate value is a float64 value, and the float64
  pipeline gives the same result as exact arithmetic.\<close>

lemma CKA_binary64_ramp2: "CKA_r binary64 ex_ramp2 ex_ramp2 None = Inr (Fin 1)"
  by (simp add: eval_defs ex_ramp2_def binary64_dyadic real_sqrt_divide)

section \<open>Symmetry\<close>


lemma centering_shape:
  "0 < n \<Longrightarrow> \<exists>H. centering n = Inr H \<and> nrows H = n \<and> ncols H = n"
  by (simp add: centering_exact py_div_exact elementwise_def np_identity_def scale_exact np_ones_def)

lemma HSIC_square:
  assumes "nrows K = n" "ncols K = n" "nrows L = n" "ncols L = n" "centering n = Inr H"
    "nrows H = n" "ncols H = n"
  shows "HSIC K L =
     (if n = 1 then Inl ZeroDivisionError
      else Inr (Fin (1 / (real n - 1)\<^sup>2) *
             (\<Sum>i<n. \<Sum>k<n. (\<Sum>a<n. item K i a * item H a k) * (\<Sum>b<n. item L k b * item H b i))))"
  using assms by (simp add: HSIC_exact np_matmul_exact np_trace_exact py_div_exact)







section \<open>Self-similarity\<close>



section \<open>Bounded range\<close>

subsection \<open>Cauchy-Schwarz for the centered trace\<close>

lemma Cauchy_Schwarz_sum:
  fixes a b :: "'a \<Rightarrow> real"
  shows "(\<Sum>i\<in>S. a i * b i)\<^sup>2 \<le> (\<Sum>i\<in>S. (a i)\<^sup>2) * (\<Sum>i\<in>S. (b i)\<^sup>2)"
proof -
  have "0 \<le> (\<Sum>i\<in>S. \<Sum>j\<in>S. (a i * b j - a j * b i)\<^sup>2)"
    by (intro sum_nonneg) simp
  also have "(\<Sum>i\<in>S. \<Sum>j\<in>S. (a i * b j - a j * b i)\<^sup>2)
      = (\<Sum>i\<in>S. \<Sum>j\<in>S. (a i)\<^sup>2 * (b j)\<^sup>2) + (\<Sum>i\<in>S. \<Sum>j\<in>S. (a j)\<^sup>2 * (b i)\<^sup>2)
        - 2 * (\<Sum>i\<in>S. \<Sum>j\<in>S. (a i * b i) * (a j * b j))"
    by (simp add: power2_diff power_mult_distrib sum.distrib sum_subtractf sum_distrib_left mult_ac)
  also have "(\<Sum>i\<in>S. \<Sum>j\<in>S. (a i)\<^sup>2 * (b j)\<^sup>2) = (\<Sum>i\<in>S. (a i)\<^sup>2) * (\<Sum>i\<in>S. (b i)\<^sup>2)"
    by (simp add: sum_product)
  also have "(\<Sum>i\<in>S. \<Sum>j\<in>S. (a j)\<^sup>2 * (b i)\<^sup>2) = (\<Sum>i\<in>S. (a i)\<^sup>2) * (\<Sum>i\<in>S. (b i)\<^sup>2)"
    by (subst sum.swap) (simp add: sum_product)
  also have "(\<Sum>i\<in>S. \<Sum>j\<in>S. (a i * b i) * (a j * b j)) = (\<Sum>i\<in>S. a i * b i)\<^sup>2"
    by (simp add: sum_product power2_eq_square)
  finally show ?thesis by simp
qed

lemma centering_H_sym: "centering_H n i j = centering_H n j i"
  by (auto simp add: centering_H_def)

lemma row_centered:
  assumes "k < n"
  shows "mat_mul n A (centering_H n) i k = A i k - rowmean n A i"
proof -
  have "(\<Sum>a<n. A i a * (if a = k then 1 else 0)) = (\<Sum>a<n. if a = k then A i a else 0)"
    by (intro sum.cong) auto
  then have "(\<Sum>a<n. A i a * (if a = k then 1 else 0)) = A i k"
    using assms by simp
  then show ?thesis
    by (simp add: mat_mul_def centering_H_def rowmean_def algebra_simps sum_subtractf sum_distrib_left
        sum_divide_distrib)
qed

lemma trace_centered:
  "mat_trace n (mat_mul n (mat_mul n A (centering_H n)) (mat_mul n B (centering_H n)))
     = (\<Sum>i<n. \<Sum>k<n. (A i k - rowmean n A i) * (B k i - rowmean n B k))"
  by (simp add: mat_trace_def mat_mul_def [of n "mat_mul n A (centering_H n)"] row_centered)

lemma dcenter_row_sum:
  assumes "0 < n"
  shows "(\<Sum>k<n. dcenter n A i k) = 0"
proof -
  have "(\<Sum>k<n. A i k) = real n * rowmean n A i"
    using assms by (simp add: rowmean_def)
  then show ?thesis
    using assms by (simp add: dcenter_def sum.distrib sum_subtractf)
qed

lemma dcenter_sym:
  assumes "\<And>i j. A i j = A j i"
  shows "dcenter n A i j = dcenter n A j i"
  using assms [of i j] by (simp add: dcenter_def)

lemma dcenter_col_sum:
  assumes "0 < n" and "\<And>i j. A i j = A j i"
  shows "(\<Sum>i<n. dcenter n A i k) = 0"
proof -
  have "(\<Sum>i<n. dcenter n A i k) = (\<Sum>i<n. dcenter n A k i)"
    by (intro sum.cong refl dcenter_sym assms(2))
  then show ?thesis by (simp add: dcenter_row_sum [OF assms(1)])
qed

lemma rowmean_centered_sum:
  assumes "0 < n"
  shows "(\<Sum>i<n. (rowmean n A i - (\<Sum>a<n. rowmean n A a) / real n)) = 0"
  using assms by (simp add: sum_subtractf)

lemma trace_centered_dcenter:
  assumes "0 < n" and symA: "\<And>i j. A i j = A j i" and symB: "\<And>i j. B i j = B j i"
  shows "(\<Sum>i<n. \<Sum>k<n. (A i k - rowmean n A i) * (B k i - rowmean n B k))
       = (\<Sum>i<n. \<Sum>k<n. dcenter n A i k * dcenter n B i k)"
proof -
  define m where "m = (\<Sum>a<n. rowmean n A a) / real n"
  define \<mu> where "\<mu> = (\<Sum>a<n. rowmean n B a) / real n"
  define r where "r = rowmean n A"
  define s where "s = rowmean n B"
  define u where "u = dcenter n A"
  define v where "v = dcenter n B"
  have pt: "(A i k - r i) * (B k i - s k)
      = u i k * v i k + u i k * (s i - \<mu>) + (r k - m) * v i k + (r k - m) * (s i - \<mu>)" for i k
    unfolding u_def v_def dcenter_def r_def s_def m_def \<mu>_def symB [of k i]
    by (simp add: algebra_simps)
  have z1: "(\<Sum>i<n. \<Sum>k<n. u i k * (s i - \<mu>)) = 0"
  proof -
    have "(\<Sum>i<n. \<Sum>k<n. u i k * (s i - \<mu>)) = (\<Sum>i<n. (\<Sum>k<n. u i k) * (s i - \<mu>))"
      by (simp add: sum_distrib_right)
    then show ?thesis by (simp add: u_def dcenter_row_sum [OF assms(1)])
  qed
  have z2: "(\<Sum>i<n. \<Sum>k<n. (r k - m) * v i k) = 0"
  proof -
    have "(\<Sum>i<n. \<Sum>k<n. (r k - m) * v i k) = (\<Sum>k<n. \<Sum>i<n. (r k - m) * v i k)"
      by (rule sum.swap)
    also have "\<dots> = (\<Sum>k<n. (r k - m) * (\<Sum>i<n. v i k))"
      by (simp add: sum_distrib_left)
    finally show ?thesis by (simp add: v_def dcenter_col_sum [OF assms(1) symB])
  qed
  have z3: "(\<Sum>i<n. \<Sum>k<n. (r k - m) * (s i - \<mu>)) = 0"
  proof -
    have "(\<Sum>i<n. \<Sum>k<n. (r k - m) * (s i - \<mu>)) = (\<Sum>k<n. r k - m) * (\<Sum>i<n. s i - \<mu>)"
      by (subst sum.swap) (simp add: sum_product)
    then show ?thesis
      using rowmean_centered_sum [OF assms(1), of B] by (simp add: s_def \<mu>_def)
  qed
  have "(\<Sum>i<n. \<Sum>k<n. (A i k - r i) * (B k i - s k))
      = (\<Sum>i<n. \<Sum>k<n. u i k * v i k) + (\<Sum>i<n. \<Sum>k<n. u i k * (s i - \<mu>))
        + (\<Sum>i<n. \<Sum>k<n. (r k - m) * v i k) + (\<Sum>i<n. \<Sum>k<n. (r k - m) * (s i - \<mu>))"
    by (simp only: pt sum.distrib)
  then show ?thesis
    unfolding z1 z2 z3 by (simp add: r_def s_def u_def v_def)
qed

lemma hsic_real_dcenter:
  assumes "0 < n" and "\<And>i j. A i j = A j i" and "\<And>i j. B i j = B j i"
  shows "hsic_real n A B = (\<Sum>i<n. \<Sum>k<n. dcenter n A i k * dcenter n B i k) / (real n - 1)\<^sup>2"
  by (simp add: hsic_real_def trace_centered trace_centered_dcenter [OF assms])

lemma hsic_real_self_nonneg:
  assumes "0 < n" and "\<And>i j. A i j = A j i"
  shows "0 \<le> hsic_real n A A"
  by (simp add: hsic_real_dcenter [OF assms assms(2)] sum_nonneg)

lemma hsic_real_Cauchy_Schwarz:
  assumes "0 < n" and symA: "\<And>i j. A i j = A j i" and symB: "\<And>i j. B i j = B j i"
  shows "(hsic_real n A B)\<^sup>2 \<le> hsic_real n A A * hsic_real n B B"
proof -
  let ?S = "{..<n} \<times> {..<n}"
  let ?u = "\<lambda>(i, k). dcenter n A i k" and ?v = "\<lambda>(i, k). dcenter n B i k"
  have "(\<Sum>p\<in>?S. ?u p * ?v p)\<^sup>2 \<le> (\<Sum>p\<in>?S. (?u p)\<^sup>2) * (\<Sum>p\<in>?S. (?v p)\<^sup>2)"
    by (rule Cauchy_Schwarz_sum)
  then have "(\<Sum>i<n. \<Sum>k<n. dcenter n A i k * dcenter n B i k)\<^sup>2
      \<le> (\<Sum>i<n. \<Sum>k<n. dcenter n A i k * dcenter n A i k) * (\<Sum>i<n. \<Sum>k<n. dcenter n B i k * dcenter n B i k)"
    by (simp add: sum.cartesian_product case_prod_unfold power2_eq_square)
  then have "(\<Sum>i<n. \<Sum>k<n. dcenter n A i k * dcenter n B i k)\<^sup>2 / ((real n - 1)\<^sup>2 * (real n - 1)\<^sup>2)
      \<le> (\<Sum>i<n. \<Sum>k<n. dcenter n A i k * dcenter n A i k) * (\<Sum>i<n. \<Sum>k<n. dcenter n B i k * dcenter n B i k)
         / ((real n - 1)\<^sup>2 * (real n - 1)\<^sup>2)"
    by (intro divide_right_mono) simp_all
  then show ?thesis
    by (simp add: hsic_real_dcenter [OF assms] hsic_real_dcenter [OF assms(1) symA symA]
        hsic_real_dcenter [OF assms(1) symB symB] power_divide)
qed

subsection \<open>Positive semidefinite kernels\<close>

lemma gram_like_zero: "gram_like (\<lambda>i j. 0)"
  using rank_one [of "\<lambda>i. 0"] by simp

lemma gram_like_const: "0 \<le> c \<Longrightarrow> gram_like (\<lambda>i j. c)"
  using rank_one [of "\<lambda>i. sqrt c"] by simp

lemma gram_like_sum:
  "(\<And>a. a < (p::nat) \<Longrightarrow> gram_like (F a)) \<Longrightarrow> gram_like (\<lambda>i j. \<Sum>a<p. F a i j)"
proof (induction p)
  case 0
  then show ?case by (simp add: gram_like_zero)
next
  case (Suc p)
  then show ?case by (simp add: plus)
qed

lemma gram_like_mult:
  assumes "gram_like A" and "gram_like B"
  shows "gram_like (\<lambda>i j. A i j * B i j)"
  using assms
proof (induction arbitrary: B)
  case (rank_one f)
  from rank_one show ?case
  proof (induction B)
    case (rank_one g)
    show ?case using gram_like.rank_one [of "\<lambda>i. f i * g i"] by (simp add: mult_ac)
  next
    case (plus B1 B2)
    then show ?case using gram_like.plus [OF plus.IH] by (simp add: distrib_left)
  qed
next
  case (plus A1 A2)
  show ?case using gram_like.plus [OF plus.IH(1) [OF plus.prems] plus.IH(2) [OF plus.prems]]
    by (simp add: distrib_right)
qed

lemma gram_like_power: "gram_like A \<Longrightarrow> gram_like (\<lambda>i j. A i j ^ k)"
  by (induction k) (simp_all add: gram_like_const gram_like_mult)

lemma gram_like_gram: "gram_like (gram p x x)"
  unfolding gram_def by (intro gram_like_sum rank_one)

text \<open>\<open>hsic_real\<close> is additive in each argument, and a square on rank-one matrices.\<close>

lemma hsic_real_add_left:
  "hsic_real n (\<lambda>i j. A1 i j + A2 i j) B = hsic_real n A1 B + hsic_real n A2 B"
  by (simp add: hsic_real_def mat_trace_def mat_mul_def distrib_right sum.distrib add_divide_distrib)

lemma hsic_real_add_right:
  "hsic_real n A (\<lambda>i j. B1 i j + B2 i j) = hsic_real n A B1 + hsic_real n A B2"
  by (simp add: hsic_real_def mat_trace_def mat_mul_def distrib_right distrib_left sum.distrib add_divide_distrib)

lemma hsic_real_rank_one:
  "hsic_real n (\<lambda>i j. f i * f j) (\<lambda>i j. g i * g j)
     = (\<Sum>k<n. g k * (\<Sum>a<n. f a * centering_H n a k))\<^sup>2 / (real n - 1)\<^sup>2"
proof -
  have "(\<Sum>i<n. \<Sum>k<n. (\<Sum>a<n. f i * f a * centering_H n a k) * (\<Sum>b<n. g k * g b * centering_H n b i))
      = (\<Sum>i<n. \<Sum>k<n. (f i * (\<Sum>b<n. g b * centering_H n b i)) * (g k * (\<Sum>a<n. f a * centering_H n a k)))"
    by (simp add: sum_distrib_left mult_ac)
  also have "\<dots> = (\<Sum>i<n. f i * (\<Sum>b<n. g b * centering_H n b i)) * (\<Sum>k<n. g k * (\<Sum>a<n. f a * centering_H n a k))"
    by (simp add: sum_product)
  also have "(\<Sum>i<n. f i * (\<Sum>b<n. g b * centering_H n b i)) = (\<Sum>b<n. g b * (\<Sum>i<n. f i * centering_H n i b))"
  proof -
    have "(\<Sum>i<n. f i * (\<Sum>b<n. g b * centering_H n b i)) = (\<Sum>i<n. \<Sum>b<n. g b * (f i * centering_H n i b))"
      by (simp add: sum_distrib_left mult_ac centering_H_sym [of n _ "_ :: nat"])
    also have "\<dots> = (\<Sum>b<n. \<Sum>i<n. g b * (f i * centering_H n i b))"
      by (rule sum.swap)
    finally show ?thesis by (simp add: sum_distrib_left)
  qed
  finally show ?thesis
    by (simp add: hsic_real_def mat_trace_def mat_mul_def power2_eq_square)
qed

lemma hsic_real_gram_like_nonneg:
  assumes "gram_like A" and "gram_like B"
  shows "0 \<le> hsic_real n A B"
  using assms
proof (induction arbitrary: B)
  case (rank_one f)
  from rank_one show ?case
  proof (induction B)
    case (rank_one g)
    show ?case by (simp add: hsic_real_rank_one)
  next
    case (plus B1 B2)
    then show ?case by (simp add: hsic_real_add_right)
  qed
next
  case (plus A1 A2)
  then show ?case by (simp add: hsic_real_add_left)
qed

lemma hsic_real_tendsto:
  assumes "\<And>i j. (\<lambda>m. As m i j) \<longlonglongrightarrow> A i j" and "\<And>i j. (\<lambda>m. Bs m i j) \<longlonglongrightarrow> B i j"
  shows "(\<lambda>m. hsic_real n (As m) (Bs m)) \<longlonglongrightarrow> hsic_real n A B"
  unfolding hsic_real_def mat_trace_def mat_mul_def divide_inverse
  by (intro tendsto_intros assms)

lemma hsic_real_gram_limit_nonneg:
  assumes "gram_limit A" and "gram_limit B"
  shows "0 \<le> hsic_real n A B"
proof -
  from assms obtain As Bs where As: "\<And>m. gram_like (As m)" "\<And>i j. (\<lambda>m. As m i j) \<longlonglongrightarrow> A i j"
    and Bs: "\<And>m. gram_like (Bs m)" "\<And>i j. (\<lambda>m. Bs m i j) \<longlonglongrightarrow> B i j"
    unfolding gram_limit_def by blast
  have lim: "(\<lambda>m. hsic_real n (As m) (Bs m)) \<longlonglongrightarrow> hsic_real n A B"
    by (rule hsic_real_tendsto [OF As(2) Bs(2)])
  have "0 \<le> hsic_real n (As m) (Bs m)" for m
    by (rule hsic_real_gram_like_nonneg [OF As(1) Bs(1)])
  then show ?thesis
    by (intro LIMSEQ_le_const [OF lim]) simp
qed

lemma gram_like_limit: "gram_like A \<Longrightarrow> gram_limit A"
  unfolding gram_limit_def by (intro exI [of _ "\<lambda>m. A"]) simp

lemma exp_series_tendsto:
  fixes z :: real
  shows "(\<lambda>m. \<Sum>k<m. inverse (fact k) * z ^ k) \<longlonglongrightarrow> exp z"
  using exp_converges [of z] by (simp add: sums_def)

lemma gram_like_exp_partial:
  assumes "gram_like A" and "0 \<le> t"
  shows "gram_like (\<lambda>i j. \<Sum>k<m. inverse (fact k) * (t * A i j) ^ k)"
proof (rule gram_like_sum)
  fix k
  have "gram_like (\<lambda>i j. (inverse (fact k) * t ^ k) * A i j ^ k)"
    using assms by (intro gram_like_mult gram_like_const gram_like_power) simp_all
  then show "gram_like (\<lambda>i j. inverse (fact k) * (t * A i j) ^ k)"
    by (simp add: power_mult_distrib mult.assoc)
qed

lemma gram_limit_rbf:
  assumes "c \<le> 0"
  shows "gram_limit (\<lambda>i j. exp (sqdist p x i j * c))"
proof -
  define a where "a = (\<lambda>i. exp (c * gram p x x i i))"
  define As where "As = (\<lambda>m i j. (a i * a j) * (\<Sum>k<m. inverse (fact k) * ((- 2 * c) * gram p x x i j) ^ k))"
  have "gram_like (As m)" for m
    unfolding As_def using assms
    by (intro gram_like_mult rank_one gram_like_exp_partial gram_like_gram) simp
  moreover have "(\<lambda>m. As m i j) \<longlonglongrightarrow> exp (sqdist p x i j * c)" for i j
  proof -
    have "(\<lambda>m. As m i j) \<longlonglongrightarrow> (a i * a j) * exp ((- 2 * c) * gram p x x i j)"
      unfolding As_def by (intro tendsto_mult tendsto_const exp_series_tendsto)
    also have "(a i * a j) * exp ((- 2 * c) * gram p x x i j) = exp (sqdist p x i j * c)"
      by (simp add: a_def sqdist_def exp_add [symmetric] algebra_simps)
    finally show ?thesis .
  qed
  ultimately show ?thesis
    unfolding gram_limit_def by blast
qed

lemma rbf_sym: "exp (sqdist p x i j * c) = exp (sqdist p x j i * c)"
  by (simp add: sqdist_def gram_sym [of p x i j])

subsection \<open>The bound\<close>

lemma HSIC_small:
  assumes "nrows K = n" "ncols K = n" "nrows L = n" "ncols L = n" "n \<le> 1"
  shows "HSIC K L = Inl ZeroDivisionError"
proof (cases "n = 0")
  case True
  then show ?thesis using assms by (simp add: HSIC_exact centering_exact py_div_exact)
next
  case False
  then have n: "n = 1" using assms(5) by simp
  obtain H where H: "centering n = Inr H" "nrows H = n" "ncols H = n"
    using centering_shape [of n] False by auto
  show ?thesis
    using n by (simp add: HSIC_square [OF assms(1-4) H])
qed

text \<open>The Gram matrix a kernel returns on a representation.\<close>

lemma kernel_gram_limit:
  assumes "kern \<in> {None, Some linear_kernel} \<or>
           s \<noteq> 0 \<and> kern \<in> {Some (rbf_with (Py (Fin s))), Some (rbf_with (Np (Fin s)))}"
  shows "\<exists>A. choose_kernel kern (real_array n p x) (real_array n p x) = Inr (real_array n n A)
            \<and> gram_limit A \<and> (\<forall>i j. A i j = A j i)"
proof (cases "kern \<in> {None, Some linear_kernel}")
  case True
  then have "choose_kernel kern (real_array n p x) (real_array n p x) = Inr (real_array n n (gram p x x))"
    by (auto simp add: choose_kernel_exact linear_kernel_real)
  then show ?thesis
    using gram_like_limit [OF gram_like_gram [of p x]] gram_sym [of p x] by blast
next
  case False
  with assms have s: "s \<noteq> 0" and k: "kern = Some (rbf_with (Py (Fin s))) \<or> kern = Some (rbf_with (Np (Fin s)))"
    by auto
  define c where "c = - (1/2) / (s * s)"
  define x' where "x' = (\<lambda>i. x (bidx n i))"
  let ?A = "\<lambda>i j. exp (sqdist p x' i j * c)"
  have c: "c \<le> 0" by (simp add: c_def divide_nonpos_nonneg)
  have "sqdist p x (bidx n i) (bidx n j) = sqdist p x' i j" for i j
    by (simp add: sqdist_def gram_def x'_def)
  then have "choose_kernel kern (real_array n p x) (real_array n p x) = Inr (real_array n n ?A)"
    using k rbf_sigma_real [OF s, of "Py (Fin s)" n p x] rbf_sigma_real [OF s, of "Np (Fin s)" n p x]
    by (auto simp add: choose_kernel_exact rbf_with_exact c_def)
  then show ?thesis
    using gram_limit_rbf [OF c, of p x'] rbf_sym [of p x' _ _ c] by blast
qed

lemma quotient_bounds:
  fixes h a b :: real
  assumes "0 \<le> h" "h\<^sup>2 \<le> a * b" "0 < a" "0 < b"
  shows "0 \<le> h / (sqrt a * sqrt b)" "h / (sqrt a * sqrt b) \<le> 1"
proof -
  show "0 \<le> h / (sqrt a * sqrt b)" using assms by simp
  have "h \<le> sqrt (a * b)"
    using assms(1,2) by (simp add: real_le_rsqrt)
  then show "h / (sqrt a * sqrt b) \<le> 1"
    using assms(3,4) by (simp add: real_sqrt_mult)
qed

text \<open>
  Claim C8, as stated, fails in float64: on \<open>X = [[134217730], [134217731]]\<close> and
  \<open>Y = [[0], [1]]\<close> with the linear kernel, \<^verbatim>\<open>varK\<close> is 2 and \<^verbatim>\<open>varL\<close> is \<open>1/2\<close>, both
  finite and nonzero, and \<^verbatim>\<open>CKA\<close> returns \<open>-1\<close>.  Two products in the Gram matrix of \<open>X\<close>
  are rounded, and the rounded matrix is not positive semidefinite.
\<close>

theorem CKA_bounded_counterexample:
  "self_var_r binary64 None ex_big = Inr (Fin 2) \<and>
   self_var_r binary64 None ex_ramp2 = Inr (Fin (1/2)) \<and>
   CKA_r binary64 ex_big ex_ramp2 None = Inr (Fin (- 1))"
  by (simp add: eval_defs ex_big_def ex_ramp2_def binary64_dyadic binary64_products
      real_sqrt_divide)

text \<open>
  Claim C8, amended.  In exact arithmetic, that is with the rounding \<open>exact\<close>: for
  representations \<open>X\<close> and \<open>Y\<close> with the same number of rows, the linear kernel or \<^verbatim>\<open>rbf\<close> with a finite nonzero bandwidth \<open>s\<close>, and finite
  nonzero \<^verbatim>\<open>varK\<close> and \<^verbatim>\<open>varL\<close>, the number that \<^verbatim>\<open>CKA\<close> returns lies in \<open>[0, 1]\<close>.
  \<^verbatim>\<open>CKA\<close> returns the quotient as computed; nothing clamps it.
\<close>

theorem CKA_bounded:
  assumes "kern \<in> {None, Some (linear_kernel_r exact)} \<or>
           s \<noteq> 0 \<and> kern \<in> {Some (rbf_with_r exact (Py (Fin s))), Some (rbf_with_r exact (Np (Fin s)))}"
    and "self_var_r exact kern (real_array n p x) = Inr (Fin vx)" and "vx \<noteq> 0"
    and "self_var_r exact kern (real_array n q y) = Inr (Fin vy)" and "vy \<noteq> 0"
  shows "\<exists>c. CKA_r exact (real_array n p x) (real_array n q y) kern = Inr (Fin c) \<and> 0 \<le> c \<and> c \<le> 1"
proof -
  note assms = assms [folded linear_kernel_def rbf_with_def self_var_def]
  obtain A where A: "choose_kernel kern (real_array n p x) (real_array n p x) = Inr (real_array n n A)"
    "gram_limit A" "\<And>i j. A i j = A j i"
    using kernel_gram_limit [OF assms(1)] by blast
  obtain B where B: "choose_kernel kern (real_array n q y) (real_array n q y) = Inr (real_array n n B)"
    "gram_limit B" "\<And>i j. B i j = B j i"
    using kernel_gram_limit [OF assms(1)] by blast
  have n: "2 \<le> n"
  proof (rule ccontr)
    assume "\<not> 2 \<le> n"
    then have "n \<le> 1" by simp
    then have "HSIC (real_array n n A) (real_array n n A) = Inl ZeroDivisionError"
      by (intro HSIC_small [where n = n]) simp_all
    then show False
      using assms(2) by (simp add: self_var_exact A(1))
  qed
  then have n0: "0 < n" by simp
  let ?h = "hsic_real n A B" and ?a = "hsic_real n A A" and ?b = "hsic_real n B B"
  have a0: "0 \<le> ?a" by (rule hsic_real_self_nonneg [OF n0 A(3)])
  have b0: "0 \<le> ?b" by (rule hsic_real_self_nonneg [OF n0 B(3)])
  have "vx = sqrt ?a"
    using assms(2) a0 by (simp add: self_var_exact A(1) HSIC_real [OF n])
  with assms(3) a0 have a: "0 < ?a" by (cases "?a = 0") simp_all
  have "vy = sqrt ?b"
    using assms(4) b0 by (simp add: self_var_exact B(1) HSIC_real [OF n])
  with assms(5) b0 have b: "0 < ?b" by (cases "?b = 0") simp_all
  have h: "0 \<le> ?h" by (rule hsic_real_gram_limit_nonneg [OF A(2) B(2)])
  have cs: "?h\<^sup>2 \<le> ?a * ?b" by (rule hsic_real_Cauchy_Schwarz [OF n0 A(3) B(3)])
  have "CKA (real_array n p x) (real_array n q y) kern = Inr (Fin (?h / (sqrt ?a * sqrt ?b)))"
    using a b by (simp add: CKA_exact A(1) B(1) HSIC_real [OF n])
  then show ?thesis
    unfolding CKA_def using quotient_bounds [OF h cs a b] by blast
qed

theorem CKA_bounded_witness:
  "(\<exists>c. CKA_r exact ex_ramp3 ex_step3 None = Inr (Fin c) \<and> 0 \<le> c \<and> c \<le> 1) \<and>
   CKA_r exact ex_ramp3 ex_step3 None = Inr (Fin (3/4)) \<and>
   (\<exists>c. CKA_r exact ex_ramp2 ex_ramp2 (Some (rbf_with_r exact (Py (Fin 1)))) = Inr (Fin c) \<and>
        0 \<le> c \<and> c \<le> 1)"
  using CKA_bounded [of None 1 3 1 "\<lambda>i j. real i" 1 1 "\<lambda>i j. if i = 2 then 1 else 0" "sqrt (1/9)"]
    CKA_bounded [of "Some (rbf_with_r exact (Py (Fin 1)))" 1 2 1 "\<lambda>i j. real i"
      "sqrt ((1 - exp (- (1/2)))\<^sup>2)" 1 "\<lambda>i j. real i" "sqrt ((1 - exp (- (1/2)))\<^sup>2)"]
    self_var_ramp3 self_var_step3 self_var_ramp2_rbf CKA_ramp_step3
  unfolding rbf_with_def [symmetric] self_var_def [symmetric] CKA_def [symmetric]
  by (simp add: ex_ramp3_def ex_step3_def ex_ramp2_def)

end
